theory Spec2Isabelle
  imports Main "HOL-Library.Word"
begin

unbundle bit_operations_syntax

section \<open>Bytes and readers\<close>

type_synonym byte = "8 word"
type_synonym bytes = "byte list"

text \<open>
  The two errors \<open>io.ReadFull\<close> reports on a short read: \<open>io.EOF\<close> when no byte
  was read, \<open>io.ErrUnexpectedEOF\<close> when some but not all were.
\<close>

datatype io_error = EOF | ErrUnexpectedEOF

text \<open>
  \<open>io.ReadFull\<close> over a \<open>bytes.Reader\<close>: the reader is the list of bytes not yet
  consumed. Asking for \<open>n\<close> bytes returns them and the rest of the reader, or fails
  when fewer than \<open>n\<close> are left. Asking for no byte always succeeds.
\<close>

definition ReadFull :: "bytes \<Rightarrow> nat \<Rightarrow> io_error + (bytes \<times> bytes)" where
  "ReadFull r n =
     (if n \<le> length r then Inr (take n r, drop n r)
      else if r = [] then Inl EOF else Inl ErrUnexpectedEOF)"

text \<open>\<open>binary.LittleEndian.Uint32\<close> on the four bytes it is given.\<close>

fun LittleEndian_Uint32 :: "bytes \<Rightarrow> 32 word" where
  "LittleEndian_Uint32 (b0 # b1 # b2 # b3 # _) =
     (ucast b0 OR push_bit 8 (ucast b1) OR push_bit 16 (ucast b2) OR push_bit 24 (ucast b3))"
| "LittleEndian_Uint32 _ = 0"

section \<open>Package wel: event types\<close>

type_synonym EventType = "32 word"

text \<open>The BIOS and EFI event type constants, as the source declares them.\<close>

definition PrebootCert :: EventType where "PrebootCert = 0x00000000"
definition PostCode :: EventType where "PostCode = 0x00000001"
definition unused :: EventType where "unused = 0x00000002"
definition NoAction :: EventType where "NoAction = 0x00000003"
definition Separator :: EventType where "Separator = 0x00000004"
definition Action :: EventType where "Action = 0x00000005"
definition EventTag :: EventType where "EventTag = 0x00000006"
definition SCRTMContents :: EventType where "SCRTMContents = 0x00000007"
definition SCRTMVersion :: EventType where "SCRTMVersion = 0x00000008"
definition CpuMicrocode :: EventType where "CpuMicrocode = 0x00000009"
definition PlatformConfigFlags :: EventType where "PlatformConfigFlags = 0x0000000A"
definition TableOfDevices :: EventType where "TableOfDevices = 0x0000000B"
definition CompactHash :: EventType where "CompactHash = 0x0000000C"
definition Ipl :: EventType where "Ipl = 0x0000000D"
definition IplPartitionData :: EventType where "IplPartitionData = 0x0000000E"
definition NonhostCode :: EventType where "NonhostCode = 0x0000000F"
definition NonhostConfig :: EventType where "NonhostConfig = 0x00000010"
definition NonhostInfo :: EventType where "NonhostInfo = 0x00000011"
definition OmitBootDeviceEvents :: EventType where "OmitBootDeviceEvents = 0x00000012"

definition EFIEventBase :: EventType where "EFIEventBase = 0x80000000"
definition EFIVariableDriverConfig :: EventType where "EFIVariableDriverConfig = 0x80000001"
definition EFIVariableBoot :: EventType where "EFIVariableBoot = 0x80000002"
definition EFIBootServicesApplication :: EventType where "EFIBootServicesApplication = 0x80000003"
definition EFIBootServicesDriver :: EventType where "EFIBootServicesDriver = 0x80000004"
definition EFIRuntimeServicesDriver :: EventType where "EFIRuntimeServicesDriver = 0x80000005"
definition EFIGPTEvent :: EventType where "EFIGPTEvent = 0x80000006"
definition EFIAction :: EventType where "EFIAction = 0x80000007"
definition EFIPlatformFirmwareBlob :: EventType where "EFIPlatformFirmwareBlob = 0x80000008"
definition EFIHandoffTables :: EventType where "EFIHandoffTables = 0x80000009"
definition EFIHCRTMEvent :: EventType where "EFIHCRTMEvent = 0x80000010"
definition EFIVariableAuthority :: EventType where "EFIVariableAuthority = 0x800000e0"

text \<open>
  The map \<open>eventTypeNames\<close>, written as the association list of its literal, in the
  literal's order. The keys are pairwise distinct, so a lookup does not depend on it.
\<close>

definition eventTypeNames :: "(EventType \<times> string) list" where
  "eventTypeNames =
    [(PrebootCert, ''Preboot Cert''),
     (PostCode, ''POST Code''),
     (unused, ''Unused''),
     (NoAction, ''No Action''),
     (Separator, ''Separator''),
     (Action, ''Action''),
     (EventTag, ''Event Tag''),
     (SCRTMContents, ''S-CRTM Contents''),
     (SCRTMVersion, ''S-CRTM Version''),
     (CpuMicrocode, ''CPU Microcode''),
     (PlatformConfigFlags, ''Platform Config Flags''),
     (TableOfDevices, ''Table of Devices''),
     (CompactHash, ''Compact Hash''),
     (Ipl, ''IPL''),
     (IplPartitionData, ''IPL Partition Data''),
     (NonhostCode, ''Non-Host Code''),
     (NonhostConfig, ''Non-HostConfig''),
     (NonhostInfo, ''Non-Host Info''),
     (OmitBootDeviceEvents, ''Omit Boot Device Events''),
     (EFIEventBase, ''EFI Event Base''),
     (EFIVariableDriverConfig, ''EFI Variable Driver Config''),
     (EFIVariableBoot, ''EFI Variable Boot''),
     (EFIBootServicesApplication, ''EFI Boot Services Application''),
     (EFIBootServicesDriver, ''EFI Boot Services Driver''),
     (EFIRuntimeServicesDriver, ''EFI Runtime Services Driver''),
     (EFIGPTEvent, ''EFI GPT Event''),
     (EFIAction, ''EFI Action''),
     (EFIPlatformFirmwareBlob, ''EFI Platform Firmware Blob''),
     (EFIVariableAuthority, ''EFI Variable Authority''),
     (EFIHandoffTables, ''EFI Handoff Tables''),
     (EFIHCRTMEvent, ''EFI H-CRTM Event'')]"

text \<open>
  The two errors of \<open>UntrustedParseEventType\<close>, each carrying the value the message
  prints: \<open>event type not between [0x0, 0x12] or [0x80000000, 0x800000FF]\<close> and
  \<open>unknown event type\<close>.
\<close>

datatype event_type_error = EventTypeNotInRange "32 word" | UnknownEventType "32 word"

text \<open>
  \<open>UntrustedParseEventType\<close>, with the range test exactly as the source writes it:
  both comparisons of each conjunction are on the unsigned 32-bit value.
\<close>

definition UntrustedParseEventType :: "32 word \<Rightarrow> event_type_error + EventType" where
  "UntrustedParseEventType et =
     (if (et < 0x80000000 \<and> et > 0x800000FF) \<or> (et < 0x0 \<and> et > 0x12)
      then Inl (EventTypeNotInRange et)
      else (case map_of eventTypeNames et of
              None \<Rightarrow> Inl (UnknownEventType et)
            | Some _ \<Rightarrow> Inr et))"

section \<open>Package wel: tagged event data\<close>

record TaggedEventData =
  ID :: "32 word"
  Data :: bytes

text \<open>
  Go's \<open>int\<close> is 32 bits wide on some platforms the module can be built for and 64 on
  the others; nothing in the sources fixes it. The conversion \<open>int(x)\<close> of a \<open>uint32\<close>
  keeps the value on a 64-bit \<open>int\<close> and reads the same 32 bits as two's complement on
  a 32-bit one, where a value from \<open>2^31\<close> on comes out negative.
\<close>

datatype int_size = Int32 | Int64

fun int_of_uint32 :: "int_size \<Rightarrow> 32 word \<Rightarrow> int" where
  "int_of_uint32 Int32 x = sint x"
| "int_of_uint32 Int64 x = sint (ucast x :: 64 word)"

text \<open>
  How \<open>ParseTaggedEventData\<close> ends without a result: the header could not be read, the
  length guard refused the header (the message prints \<open>DataLen\<close> and \<open>len(d)\<close>), the
  read of the data failed (returned unwrapped), or \<open>make\<close> was given a length that does
  not fit \<open>int\<close> and the call panicked (\<open>makeslice: len out of range\<close>) instead of
  returning.
\<close>

datatype tagged_error =
    ReadingHeader io_error
  | TaggedEventLenTooLarge "32 word" nat
  | ReadingData io_error
  | PanicMakesliceLenOutOfRange

text \<open>
  What a call returns and what it allocates. The source returns a pointer and an error,
  and its last statement returns both \<open>&out\<close> and the error of the read, so the two are
  separate fields. \<open>allocs\<close> lists the sizes of the buffers
  \<open>make([]byte, header.DataLen)\<close> allocated, in order: the allocation the length guard
  is there to bound. A \<open>make\<close> that panics allocates nothing.
\<close>

record parse_outcome =
  out :: "TaggedEventData option"
  err :: "tagged_error option"
  allocs :: "nat list"

text \<open>
  \<open>binary.Read\<close> into the header \<open>struct { ID uint32; DataLen uint32 }\<close>: eight bytes
  are read in full and decoded little-endian. The result is the two fields and the
  reader after the read.
\<close>

definition binary_Read_header :: "bytes \<Rightarrow> io_error + ((32 word \<times> 32 word) \<times> bytes)" where
  "binary_Read_header r =
     (case ReadFull r 8 of
        Inl e \<Rightarrow> Inl e
      | Inr (bs, r') \<Rightarrow>
          Inr ((LittleEndian_Uint32 (take 4 bs), LittleEndian_Uint32 (drop 4 bs)), r'))"

text \<open>
  \<open>ParseTaggedEventData\<close>, on a platform whose \<open>int\<close> has the width \<open>sz\<close>. The guard
  compares \<open>int(header.DataLen)\<close> with \<open>len(d)\<close>. \<open>make([]byte, header.DataLen)\<close> takes
  the \<open>uint32\<close> itself and panics when it does not fit \<open>int\<close>, which is when the
  conversion is negative. The last \<open>binary.Read\<close> fills a slice of \<open>DataLen\<close> bytes, so
  it reads that many in full; when it fails, \<open>out.Data\<close> is still the zeroed buffer
  \<open>make\<close> gave.
\<close>

definition ParseTaggedEventData :: "int_size \<Rightarrow> bytes \<Rightarrow> parse_outcome" where
  "ParseTaggedEventData sz d =
     (case binary_Read_header d of
        Inl e \<Rightarrow> \<lparr>out = None, err = Some (ReadingHeader e), allocs = []\<rparr>
      | Inr ((header_ID, header_DataLen), r) \<Rightarrow>
          if int_of_uint32 sz header_DataLen > int (length d)
          then \<lparr>out = None,
                err = Some (TaggedEventLenTooLarge header_DataLen (length d)),
                allocs = []\<rparr>
          else if int_of_uint32 sz header_DataLen < 0
          then \<lparr>out = None, err = Some PanicMakesliceLenOutOfRange, allocs = []\<rparr>
          else
            let n = unat header_DataLen;
                buf = replicate n (0 :: byte)
            in (case ReadFull r n of
                  Inl e \<Rightarrow> \<lparr>out = Some \<lparr>ID = header_ID, Data = buf\<rparr>,
                             err = Some (ReadingData e), allocs = [n]\<rparr>
                | Inr (dat, _) \<Rightarrow> \<lparr>out = Some \<lparr>ID = header_ID, Data = dat\<rparr>,
                                    err = None, allocs = [n]\<rparr>))"

text \<open>The constant of \<open>client/hash.go\<close>; nothing in the sources refers to it.\<close>

definition maxBytesBufferSize :: nat where
  "maxBytesBufferSize = 1024 * 1024"

section \<open>Package server: attestation verification\<close>

subsection \<open>Data\<close>

text \<open>
  \<open>tpm2.Algorithm\<close> is a \<open>uint16\<close>. The four identifiers the verifier names have the
  values the TPM 2.0 specification gives them (\<open>TPM_ALG_ID\<close>).
\<close>

type_synonym Algorithm = "16 word"

definition AlgSHA1 :: Algorithm where "AlgSHA1 = 0x0004"
definition AlgSHA256 :: Algorithm where "AlgSHA256 = 0x000B"
definition AlgSHA384 :: Algorithm where "AlgSHA384 = 0x000C"
definition AlgSHA512 :: Algorithm where "AlgSHA512 = 0x000D"
definition AlgNull :: Algorithm where "AlgNull = 0x0010"

text \<open>The hash algorithms supported, in their preferred order of use.\<close>

definition supportedHashAlgs :: "Algorithm list" where
  "supportedHashAlgs = [AlgSHA512, AlgSHA384, AlgSHA256, AlgSHA1]"

text \<open>
  A \<open>crypto.PublicKey\<close> is an interface value; the verifier tells RSA keys, ECDSA keys
  and every other dynamic type apart. An RSA key is its modulus and exponent, an ECDSA
  key its curve and point; both are keys behind non-nil pointers, as \<open>Public.Key\<close>
  returns them. \<open>OtherPublicKey\<close> stands for a value of any other dynamic type, the nil
  interface included.
\<close>

datatype Curve = P224 | P256 | P384 | P521

datatype PublicKey =
    RSAPublicKey int int
  | ECDSAPublicKey Curve int int
  | OtherPublicKey bytes

text \<open>
  The \<open>Equal\<close> methods of \<open>*rsa.PublicKey\<close> and \<open>*ecdsa.PublicKey\<close>: the argument
  must have the receiver's own type, and then the components are compared.
\<close>

fun rsa_Equal :: "int \<Rightarrow> int \<Rightarrow> PublicKey \<Rightarrow> bool" where
  "rsa_Equal n e (RSAPublicKey n' e') = (n = n' \<and> e = e')"
| "rsa_Equal n e _ = False"

fun ecdsa_Equal :: "Curve \<Rightarrow> int \<Rightarrow> int \<Rightarrow> PublicKey \<Rightarrow> bool" where
  "ecdsa_Equal c x y (ECDSAPublicKey c' x' y') = (x = x' \<and> y = y' \<and> c = c')"
| "ecdsa_Equal c x y _ = False"

text \<open>
  The protobuf messages, with the fields the verifier reads. \<open>hash\<close> is the enum
  \<open>HashAlgo\<close>, carried as an \<open>int32\<close>. A message is handled through a pointer, which
  may be nil: a pointer is \<open>None\<close> or \<open>Some\<close> message, for the attestation, for each
  entry of its list of quotes and for the PCRs of a quote. The generated getters
  return the zero value through a nil pointer.
\<close>

record PCRs =
  hash :: "32 word"
  pcrs_values :: "(32 word \<times> bytes) list"

record Quote =
  quote :: bytes
  raw_sig :: bytes
  pcrs :: "PCRs option"

record Attestation =
  AkPub :: bytes
  AkCert :: bytes
  Quotes :: "Quote option list"
  EventLog :: bytes
  CanonicalEventLog :: bytes

definition GetPcrs :: "Quote option \<Rightarrow> PCRs option" where
  "GetPcrs q = (case q of None \<Rightarrow> None | Some x \<Rightarrow> pcrs x)"

definition GetHash :: "PCRs option \<Rightarrow> 32 word" where
  "GetHash p = (case p of None \<Rightarrow> 0 | Some x \<Rightarrow> hash x)"

definition GetAkPub :: "Attestation option \<Rightarrow> bytes" where
  "GetAkPub a = (case a of None \<Rightarrow> [] | Some x \<Rightarrow> AkPub x)"

definition GetQuotes :: "Attestation option \<Rightarrow> Quote option list" where
  "GetQuotes a = (case a of None \<Rightarrow> [] | Some x \<Rightarrow> Quotes x)"

definition GetEventLog :: "Attestation option \<Rightarrow> bytes" where
  "GetEventLog a = (case a of None \<Rightarrow> [] | Some x \<Rightarrow> EventLog x)"

definition GetCanonicalEventLog :: "Attestation option \<Rightarrow> bytes" where
  "GetCanonicalEventLog a = (case a of None \<Rightarrow> [] | Some x \<Rightarrow> CanonicalEventLog x)"

text \<open>
  The conversion \<open>tpm2.Algorithm(quote.GetPcrs().GetHash())\<close> of the \<open>int32\<close> enum to a
  \<open>uint16\<close> keeps the low 16 bits.
\<close>

definition quoteAlgorithm :: "Quote option \<Rightarrow> Algorithm" where
  "quoteAlgorithm q = ucast (GetHash (GetPcrs q))"

record 'pool VerifyOpts =
  Nonce :: bytes
  TrustedAKs :: "PublicKey list"
  AllowSHA1 :: bool
  TrustedRootCerts :: 'pool
  IntermediateCerts :: 'pool

subsection \<open>Collaborators\<close>

text \<open>
  What \<open>VerifyAttestation\<close> calls and the sources do not hold: the TPM library
  (\<open>tpm2.DecodePublic\<close>, \<open>Public.Key\<close>), the certificate library
  (\<open>x509.ParseCertificate\<close>, \<open>Certificate.Verify\<close> with the options the verifier
  fixes), the package \<open>internal\<close> (\<open>GetSigningHashAlg\<close>, \<open>VerifyQuote\<close>), the two
  event log parsers and \<open>proto.Merge\<close>. Each is a parameter. An error of a collaborator
  is its message; \<open>proto_Merge dst src\<close> is the destination after the call.
\<close>

record ('pub, 'cert, 'pool, 'st) collaborators =
  tpm2_DecodePublic :: "bytes \<Rightarrow> string + 'pub"
  Public_Key :: "'pub \<Rightarrow> string + PublicKey"
  x509_ParseCertificate :: "bytes \<Rightarrow> string + 'cert"
  Certificate_Verify :: "'cert \<Rightarrow> 'pool \<Rightarrow> 'pool \<Rightarrow> string option"
  internal_GetSigningHashAlg :: "'pub \<Rightarrow> string + Algorithm"
  internal_VerifyQuote :: "Quote option \<Rightarrow> PublicKey \<Rightarrow> bytes \<Rightarrow> string option"
  parsePCClientEventLog :: "bytes \<Rightarrow> PCRs option \<Rightarrow> string + 'st"
  parseCanonicalEventLog :: "bytes \<Rightarrow> PCRs option \<Rightarrow> string + 'st"
  proto_Merge :: "'st \<Rightarrow> 'st \<Rightarrow> 'st"

subsection \<open>Errors\<close>

text \<open>
  One constructor per error the package builds, carrying what the message wraps.
  \<open>FailedValidateAK\<close> is \<open>failed to validate attestation key: AKPub is untrusted and
  %v\<close>, where \<open>%v\<close> is the error of \<open>validateAkCert\<close>. \<open>PanicNilAttestation\<close> is no
  returned error: it is the panic of reading the field \<open>attestation.AkCert\<close> through a
  nil attestation.
\<close>

datatype trust_error = NoMechanismProvided | AKNotTrusted

datatype cert_error =
    AKCertEmpty
  | FailedParseAKCert string
  | FailedVerifyAKCert string

datatype hash_error = SHA1NotAllowed | UnsupportedHashAlgorithm Algorithm

datatype verify_error =
    FailedDecodeAKPublicArea string
  | FailedGetAKPublicKey string
  | FailedValidateAK cert_error
  | BadAKPublicArea string
  | InAKPublicArea hash_error
  | FailedVerifyQuote string
  | FailedValidatePCClientEventLog string
  | FailedValidateCanonicalEventLog string
  | WhenVerifyingPCRs hash_error
  | NoSupportedQuote
  | PanicNilAttestation

subsection \<open>AK trust\<close>

fun pubKeysEqual :: "PublicKey \<Rightarrow> PublicKey \<Rightarrow> bool" where
  "pubKeysEqual (RSAPublicKey n e) k2 = rsa_Equal n e k2"
| "pubKeysEqual (ECDSAPublicKey c x y) k2 = ecdsa_Equal c x y k2"
| "pubKeysEqual (OtherPublicKey _) k2 = False"

text \<open>The loop of \<open>checkAkTrusted\<close> over the trusted keys, and the function.\<close>

fun checkKnownAKs :: "PublicKey \<Rightarrow> PublicKey list \<Rightarrow> trust_error option" where
  "checkKnownAKs ak [] = Some AKNotTrusted"
| "checkKnownAKs ak (trusted # rest) =
     (if pubKeysEqual ak trusted then None else checkKnownAKs ak rest)"

definition checkAkTrusted :: "PublicKey \<Rightarrow> 'pool VerifyOpts \<Rightarrow> trust_error option" where
  "checkAkTrusted ak opts =
     (if length (TrustedAKs opts) = 0 then Some NoMechanismProvided
      else checkKnownAKs ak (TrustedAKs opts))"

definition validateAkCert ::
  "('pub, 'cert, 'pool, 'st) collaborators \<Rightarrow> bytes \<Rightarrow> 'pool \<Rightarrow> 'pool \<Rightarrow> cert_error option"
where
  "validateAkCert C akCertBytes intermediates roots =
     (if length akCertBytes = 0 then Some AKCertEmpty
      else (case x509_ParseCertificate C akCertBytes of
              Inl e \<Rightarrow> Some (FailedParseAKCert e)
            | Inr akCert \<Rightarrow>
                (case Certificate_Verify C akCert roots intermediates of
                   Some e \<Rightarrow> Some (FailedVerifyAKCert e)
                 | None \<Rightarrow> None)))"

subsection \<open>Hash algorithm policy and quote selection\<close>

fun algIn :: "Algorithm \<Rightarrow> Algorithm list \<Rightarrow> bool" where
  "algIn h [] = False"
| "algIn h (alg # algs) = (if h = alg then True else algIn h algs)"

definition checkHashAlgSupported :: "Algorithm \<Rightarrow> 'pool VerifyOpts \<Rightarrow> hash_error option" where
  "checkHashAlgSupported h opts =
     (if h = AlgSHA1 \<and> \<not> AllowSHA1 opts then Some SHA1NotAllowed
      else if algIn h supportedHashAlgs then None
      else Some (UnsupportedHashAlgorithm h))"

text \<open>
  \<open>supportedQuotes\<close>: the inner loop appends the first quote of the algorithm and
  breaks; the outer loop runs over \<open>supportedHashAlgs\<close> with \<open>out\<close> as accumulator.
\<close>

fun firstQuoteOf :: "Algorithm \<Rightarrow> Quote option list \<Rightarrow> Quote option list" where
  "firstQuoteOf alg [] = []"
| "firstQuoteOf alg (q # qs) =
     (if quoteAlgorithm q = alg then [q] else firstQuoteOf alg qs)"

fun supportedQuotesFrom ::
  "Algorithm list \<Rightarrow> Quote option list \<Rightarrow> Quote option list \<Rightarrow> Quote option list"
where
  "supportedQuotesFrom [] quotes acc = acc"
| "supportedQuotesFrom (alg # algs) quotes acc =
     supportedQuotesFrom algs quotes (acc @ firstQuoteOf alg quotes)"

definition supportedQuotes :: "Quote option list \<Rightarrow> Quote option list" where
  "supportedQuotes quotes = supportedQuotesFrom supportedHashAlgs quotes []"

subsection \<open>The verifier\<close>

text \<open>
  The body of the loop over the candidate quotes, for one quote: \<open>Inl\<close> is the error the
  body stores in \<open>lastErr\<close> before \<open>continue\<close>, \<open>Inr\<close> the state it returns.
\<close>

definition verifyQuoteAttempt ::
  "('pub, 'cert, 'pool, 'st) collaborators \<Rightarrow> Attestation option \<Rightarrow> 'pool VerifyOpts \<Rightarrow>
   PublicKey \<Rightarrow> Quote option \<Rightarrow> verify_error + 'st"
where
  "verifyQuoteAttempt C attestation opts akPubKey q =
     (case internal_VerifyQuote C q akPubKey (Nonce opts) of
        Some e \<Rightarrow> Inl (FailedVerifyQuote e)
      | None \<Rightarrow>
          (case parsePCClientEventLog C (GetEventLog attestation) (GetPcrs q) of
             Inl e \<Rightarrow> Inl (FailedValidatePCClientEventLog e)
           | Inr state \<Rightarrow>
               (case parseCanonicalEventLog C (GetCanonicalEventLog attestation) (GetPcrs q) of
                  Inl e \<Rightarrow> Inl (FailedValidateCanonicalEventLog e)
                | Inr celState \<Rightarrow>
                    (case checkHashAlgSupported (ucast (GetHash (GetPcrs q))) opts of
                       Some e \<Rightarrow> Inl (WhenVerifyingPCRs e)
                     | None \<Rightarrow> Inr (proto_Merge C celState state)))))"

text \<open>The loop, with \<open>lastErr\<close> as its state, and what follows it.\<close>

fun verifyQuotes ::
  "('pub, 'cert, 'pool, 'st) collaborators \<Rightarrow> Attestation option \<Rightarrow> 'pool VerifyOpts \<Rightarrow>
   PublicKey \<Rightarrow> verify_error option \<Rightarrow> Quote option list \<Rightarrow> verify_error + 'st"
where
  "verifyQuotes C attestation opts akPubKey lastErr [] =
     (case lastErr of Some e \<Rightarrow> Inl e | None \<Rightarrow> Inl NoSupportedQuote)"
| "verifyQuotes C attestation opts akPubKey lastErr (q # qs) =
     (case verifyQuoteAttempt C attestation opts akPubKey q of
        Inl e \<Rightarrow> verifyQuotes C attestation opts akPubKey (Some e) qs
      | Inr merged \<Rightarrow> Inr merged)"

text \<open>
  The step \<open>Verify the AK\<close> after the key is decoded: \<open>None\<close> when the key is trusted,
  by the list or else by the certificate, and otherwise how the call ends. The
  certificate is read as the field \<open>attestation.AkCert\<close>, not through a getter.
\<close>

definition verifyAK ::
  "('pub, 'cert, 'pool, 'st) collaborators \<Rightarrow> Attestation option \<Rightarrow> 'pool VerifyOpts \<Rightarrow>
   PublicKey \<Rightarrow> verify_error option"
where
  "verifyAK C attestation opts akPubKey =
     (case checkAkTrusted akPubKey opts of
        None \<Rightarrow> None
      | Some _ \<Rightarrow>
          (case attestation of
             None \<Rightarrow> Some PanicNilAttestation
           | Some a \<Rightarrow>
               (case validateAkCert C (AkCert a) (IntermediateCerts opts)
                       (TrustedRootCerts opts) of
                  None \<Rightarrow> None
                | Some e \<Rightarrow> Some (FailedValidateAK e))))"

definition VerifyAttestation ::
  "('pub, 'cert, 'pool, 'st) collaborators \<Rightarrow> Attestation option \<Rightarrow> 'pool VerifyOpts \<Rightarrow>
   verify_error + 'st"
where
  "VerifyAttestation C attestation opts =
     (case tpm2_DecodePublic C (GetAkPub attestation) of
        Inl e \<Rightarrow> Inl (FailedDecodeAKPublicArea e)
      | Inr akPubArea \<Rightarrow>
          (case Public_Key C akPubArea of
             Inl e \<Rightarrow> Inl (FailedGetAKPublicKey e)
           | Inr akPubKey \<Rightarrow>
               (case verifyAK C attestation opts akPubKey of
                  Some e \<Rightarrow> Inl e
                | None \<Rightarrow>
                    (case internal_GetSigningHashAlg C akPubArea of
                       Inl e \<Rightarrow> Inl (BadAKPublicArea e)
                     | Inr signHashAlg \<Rightarrow>
                         (case checkHashAlgSupported signHashAlg opts of
                            Some e \<Rightarrow> Inl (InAKPublicArea e)
                          | None \<Rightarrow>
                              verifyQuotes C attestation opts akPubKey None
                                (supportedQuotes (GetQuotes attestation)))))))"

subsection \<open>Sample inputs\<close>

text \<open>
  A set of collaborators to run the verifier on concrete inputs. The decoded public
  area is the key itself, an RSA key whose modulus is the length of the blob; a
  certificate verifies when it is among the roots; a quote verifies when its
  signature is the nonce; the legacy log parses unless it is empty; merging appends
  the source to the destination.
\<close>

definition sampleCollaborators :: "(PublicKey, bytes, bytes list, string list) collaborators" where
  "sampleCollaborators =
     \<lparr>tpm2_DecodePublic =
        (\<lambda>b. if b = [] then Inl ''empty public area''
             else Inr (RSAPublicKey (int (length b)) 65537)),
      Public_Key = Inr,
      x509_ParseCertificate = (\<lambda>b. if b = [] then Inl ''empty certificate'' else Inr b),
      Certificate_Verify =
        (\<lambda>cert roots intermediates.
           if cert \<in> set roots then None else Some ''unknown authority''),
      internal_GetSigningHashAlg = (\<lambda>_. Inr AlgSHA256),
      internal_VerifyQuote =
        (\<lambda>q ak nonce.
           if map_option raw_sig q = Some nonce then None else Some ''signature mismatch''),
      parsePCClientEventLog =
        (\<lambda>log p. if log = [] then Inl ''empty log'' else Inr [''legacy'']),
      parseCanonicalEventLog = (\<lambda>log p. Inr [''canonical'']),
      proto_Merge = (\<lambda>dst src. dst @ src)\<rparr>"

definition sampleQuote :: "32 word \<Rightarrow> bytes \<Rightarrow> Quote option" where
  "sampleQuote h sig =
     Some \<lparr>quote = [], raw_sig = sig, pcrs = Some \<lparr>hash = h, pcrs_values = []\<rparr>\<rparr>"

definition sampleAttestation :: "Quote option list \<Rightarrow> Attestation" where
  "sampleAttestation qs =
     \<lparr>AkPub = [1], AkCert = [], Quotes = qs, EventLog = [1], CanonicalEventLog = []\<rparr>"

definition sampleOpts :: "bytes list VerifyOpts" where
  "sampleOpts =
     \<lparr>Nonce = [1], TrustedAKs = [RSAPublicKey 1 65537], AllowSHA1 = False,
      TrustedRootCerts = [], IntermediateCerts = []\<rparr>"

section \<open>Package client: hashing\<close>

subsection \<open>Data and collaborators\<close>

definition maxDigestBufferSize :: nat where
  "maxDigestBufferSize = 1024"

text \<open>
  \<open>tpmutil.Handle\<close> is a \<open>uint32\<close>, \<open>crypto.Hash\<close> an unsigned identifier of a hash
  function. A \<open>tpm2.Ticket\<close> and a \<open>tpm2.HashValue\<close> are what the TPM returns; the
  package passes them on unread.
\<close>

type_synonym Handle = "32 word"
type_synonym crypto_Hash = nat

record Ticket =
  ticket_type :: "16 word"
  ticket_hierarchy :: "32 word"
  ticket_digest :: bytes

record HashValue =
  hash_alg :: Algorithm
  hash_value :: bytes

text \<open>
  The errors of the package. A collaborator's error is its message. The package also
  stops in three ways that are no returned error: dereferencing a nil \<open>*crypto.Hash\<close> or
  a nil \<open>*tpmutil.Handle\<close>, and \<open>crypto.Hash.New\<close> on a hash function that is not
  linked in, which panics. A TPM command on a nil device cannot be sent: the call
  fails, and \<open>NilTPMHandle\<close> stands for that failure.
\<close>

datatype client_error =
    LibraryError string
  | NilPointerDereference
  | HashFunctionUnavailable
  | NilTPMHandle

text \<open>
  The collaborators: the local hash library (\<open>crypto.Hash.New\<close>, \<open>Write\<close>,
  \<open>Sum(nil)\<close> of a \<open>hash.Hash\<close> in state \<open>'ctx\<close>) and the TPM library over a device in
  state \<open>'dev\<close>. A TPM command takes the device and returns its result with the device
  after the command.
\<close>

record ('ctx, 'dev) hashing =
  crypto_New :: "crypto_Hash \<Rightarrow> 'ctx option"
  hash_Write :: "'ctx \<Rightarrow> bytes \<Rightarrow> string + 'ctx"
  hash_Sum :: "'ctx \<Rightarrow> bytes"
  tpm2_HashToAlgorithm :: "crypto_Hash \<Rightarrow> string + Algorithm"
  tpm2_Hash ::
    "'dev \<Rightarrow> Algorithm \<Rightarrow> bytes \<Rightarrow> Handle \<Rightarrow> (string + bytes \<times> Ticket option) \<times> 'dev"
  tpm2_HashSequenceStart ::
    "'dev \<Rightarrow> string \<Rightarrow> Algorithm \<Rightarrow> (string + Handle) \<times> 'dev"
  tpm2_SequenceUpdate ::
    "'dev \<Rightarrow> string \<Rightarrow> Handle \<Rightarrow> bytes \<Rightarrow> string option \<times> 'dev"
  tpm2_SequenceComplete ::
    "'dev \<Rightarrow> string \<Rightarrow> Handle \<Rightarrow> Handle \<Rightarrow> bytes \<Rightarrow>
     (string + bytes \<times> Ticket option) \<times> 'dev"
  tpm2_EventSequenceComplete ::
    "'dev \<Rightarrow> string \<Rightarrow> string \<Rightarrow> Handle \<Rightarrow> Handle \<Rightarrow> bytes \<Rightarrow>
     (string + HashValue list) \<times> 'dev"

text \<open>
  A command on the device the resolver gave, which may be nil: on a nil device it fails
  with \<open>NilTPMHandle\<close> and there is no device to change.
\<close>

definition onDevice ::
  "'dev option \<Rightarrow> ('dev \<Rightarrow> (string + 'a) \<times> 'dev) \<Rightarrow> (client_error + 'a) \<times> 'dev option"
where
  "onDevice device cmd =
     (case device of
        None \<Rightarrow> (Inl NilTPMHandle, None)
      | Some dev \<Rightarrow>
          (case cmd dev of
             (Inl e, dev') \<Rightarrow> (Inl (LibraryError e), Some dev')
           | (Inr r, dev') \<Rightarrow> (Inr r, Some dev')))"

definition SequenceUpdate ::
  "('ctx, 'dev) hashing \<Rightarrow> 'dev option \<Rightarrow> string \<Rightarrow> Handle \<Rightarrow> bytes \<Rightarrow>
   client_error option \<times> 'dev option"
where
  "SequenceUpdate H device auth h chunk =
     (case device of
        None \<Rightarrow> (Some NilTPMHandle, None)
      | Some dev \<Rightarrow>
          (case tpm2_SequenceUpdate H dev auth h chunk of
             (Some e, dev') \<Rightarrow> (Some (LibraryError e), Some dev')
           | (None, dev') \<Rightarrow> (None, Some dev')))"

text \<open>
  The resolver is a closure returning an optional hash function and an optional device,
  and nothing makes it return the same at every call: here it is the results of its
  calls to come, \<open>resolver 0\<close> that of the next one.
\<close>

type_synonym 'dev HashResolver = "nat \<Rightarrow> crypto_Hash option \<times> 'dev option"

subsection \<open>The buffer\<close>

text \<open>
  A \<open>bytes.Buffer\<close> is the list of its unread bytes: \<open>Len\<close> is its length, and
  \<open>Next(n)\<close> returns the first \<open>n\<close> unread bytes (all of them when fewer are left) and
  leaves the rest.
\<close>

definition ByteSliceToBuffer :: "bytes \<Rightarrow> bytes" where
  "ByteSliceToBuffer data = data"

definition Buffer_Next :: "nat \<Rightarrow> bytes \<Rightarrow> bytes \<times> bytes" where
  "Buffer_Next n buf = (take n buf, drop n buf)"

definition feedDataByChunks :: "bytes \<Rightarrow> bytes \<times> bytes" where
  "feedDataByChunks dataBuffer = Buffer_Next maxDigestBufferSize dataBuffer"

subsection \<open>Sequencing\<close>

text \<open>
  The loop \<open>for k := true; k; k = dataBuffer.Len() > 0\<close> of \<open>HashWithSequencing\<close> and
  of \<open>EventWithSequencing\<close> (the two are the same text): the body runs, then the
  condition is read. The result is the error that ended the loop early, if any, and the
  device.
\<close>

function sequenceUpdateLoop ::
  "('ctx, 'dev) hashing \<Rightarrow> 'dev option \<Rightarrow> string \<Rightarrow> Handle \<Rightarrow> bytes \<Rightarrow>
   client_error option \<times> 'dev option"
where
  "sequenceUpdateLoop H device auth h dataBuffer =
     (let r = SequenceUpdate H device auth h (fst (Buffer_Next maxDigestBufferSize dataBuffer));
          rest = snd (Buffer_Next maxDigestBufferSize dataBuffer)
      in if fst r \<noteq> None then r
         else if length rest > 0 then sequenceUpdateLoop H (snd r) auth h rest
         else r)"
  by pat_completeness auto
termination
  by (relation "measure (\<lambda>(H, device, auth, h, dataBuffer). length dataBuffer)")
     (auto simp: Buffer_Next_def maxDigestBufferSize_def)

text \<open>
  The chunks the loop takes from a buffer when no update fails: at least one, each the
  next \<open>maxDigestBufferSize\<close> bytes or what is left.
\<close>

function chunksOf :: "bytes \<Rightarrow> bytes list" where
  "chunksOf dataBuffer =
     fst (Buffer_Next maxDigestBufferSize dataBuffer) #
       (if length (snd (Buffer_Next maxDigestBufferSize dataBuffer)) > 0
        then chunksOf (snd (Buffer_Next maxDigestBufferSize dataBuffer))
        else [])"
  by pat_completeness auto
termination
  by (relation "measure length") (auto simp: Buffer_Next_def maxDigestBufferSize_def)

text \<open>The algorithm both sequencing functions resolve before anything is sent.\<close>

definition resolveAlgorithm ::
  "('ctx, 'dev) hashing \<Rightarrow> crypto_Hash option \<Rightarrow> client_error + Algorithm"
where
  "resolveAlgorithm H h =
     (case h of
        Some hh \<Rightarrow>
          (case tpm2_HashToAlgorithm H hh of
             Inl e \<Rightarrow> Inl (LibraryError e)
           | Inr alg \<Rightarrow> Inr alg)
      | None \<Rightarrow> Inr AlgNull)"

definition HashWithSequencing ::
  "('ctx, 'dev) hashing \<Rightarrow> bytes \<Rightarrow> 'dev HashResolver \<Rightarrow> string \<Rightarrow> Handle option \<Rightarrow>
   (client_error + bytes \<times> Ticket option) \<times> 'dev option"
where
  "HashWithSequencing H data resolver sequenceAuthorization hierarchyHandle =
     (let dataBuffer = ByteSliceToBuffer data;
          h = fst (resolver 0);
          device = snd (resolver 0)
      in case resolveAlgorithm H h of
           Inl e \<Rightarrow> (Inl e, device)
         | Inr alg \<Rightarrow>
             (case (if device \<noteq> None \<and> hierarchyHandle \<noteq> None
                    then onDevice device
                           (\<lambda>dev. tpm2_HashSequenceStart H dev sequenceAuthorization alg)
                    else (Inr 0, device)) of
                (Inl e, device1) \<Rightarrow> (Inl e, device1)
              | (Inr sequenceHandle, device1) \<Rightarrow>
                  (case sequenceUpdateLoop H device1 sequenceAuthorization sequenceHandle
                          dataBuffer of
                     (Some e, device2) \<Rightarrow> (Inl e, device2)
                   | (None, device2) \<Rightarrow>
                       (case hierarchyHandle of
                          None \<Rightarrow> (Inl NilPointerDereference, device2)
                        | Some hierarchy \<Rightarrow>
                            onDevice device2
                              (\<lambda>dev. tpm2_SequenceComplete H dev sequenceAuthorization
                                       sequenceHandle hierarchy [])))))"

definition EventWithSequencing ::
  "('ctx, 'dev) hashing \<Rightarrow> bytes \<Rightarrow> 'dev HashResolver \<Rightarrow> string \<Rightarrow> string \<Rightarrow> Handle \<Rightarrow>
   (client_error + HashValue list) \<times> 'dev option"
where
  "EventWithSequencing H data resolver sequenceAuthorization pcrAuthorization pcrHandle =
     (let dataBuffer = ByteSliceToBuffer data;
          h = fst (resolver 0);
          device = snd (resolver 0)
      in case resolveAlgorithm H h of
           Inl e \<Rightarrow> (Inl e, device)
         | Inr alg \<Rightarrow>
             (case (if device \<noteq> None
                    then onDevice device
                           (\<lambda>dev. tpm2_HashSequenceStart H dev sequenceAuthorization alg)
                    else (Inr 0, device)) of
                (Inl e, device1) \<Rightarrow> (Inl e, device1)
              | (Inr sequenceHandle, device1) \<Rightarrow>
                  (case sequenceUpdateLoop H device1 sequenceAuthorization sequenceHandle
                          dataBuffer of
                     (Some e, device2) \<Rightarrow> (Inl e, device2)
                   | (None, device2) \<Rightarrow>
                       onDevice device2
                         (\<lambda>dev. tpm2_EventSequenceComplete H dev pcrAuthorization
                                  sequenceAuthorization pcrHandle sequenceHandle []))))"

subsection \<open>Hash\<close>


subsection \<open>A recording device\<close>

text \<open>
  To speak of the commands a call sends, the device is wrapped: the wrapped device is
  the device together with the list of the commands received so far, and each command
  is appended to the list and passed on unchanged. The hash library is untouched.
\<close>

datatype tpm_call =
    Call_Hash Algorithm bytes Handle
  | Call_HashSequenceStart string Algorithm
  | Call_SequenceUpdate string Handle bytes
  | Call_SequenceComplete string Handle Handle bytes
  | Call_EventSequenceComplete string string Handle Handle bytes

definition recorded :: "tpm_call \<Rightarrow> tpm_call list \<Rightarrow> 'r \<times> 'dev \<Rightarrow> 'r \<times> ('dev \<times> tpm_call list)" where
  "recorded c calls result = (fst result, (snd result, calls @ [c]))"

definition recording :: "('ctx, 'dev) hashing \<Rightarrow> ('ctx, 'dev \<times> tpm_call list) hashing" where
  "recording H =
     \<lparr>crypto_New = crypto_New H,
      hash_Write = hash_Write H,
      hash_Sum = hash_Sum H,
      tpm2_HashToAlgorithm = tpm2_HashToAlgorithm H,
      tpm2_Hash = (\<lambda>d alg data hierarchy.
        recorded (Call_Hash alg data hierarchy) (snd d)
          (tpm2_Hash H (fst d) alg data hierarchy)),
      tpm2_HashSequenceStart = (\<lambda>d auth alg.
        recorded (Call_HashSequenceStart auth alg) (snd d)
          (tpm2_HashSequenceStart H (fst d) auth alg)),
      tpm2_SequenceUpdate = (\<lambda>d auth h chunk.
        recorded (Call_SequenceUpdate auth h chunk) (snd d)
          (tpm2_SequenceUpdate H (fst d) auth h chunk)),
      tpm2_SequenceComplete = (\<lambda>d auth h hierarchy buf.
        recorded (Call_SequenceComplete auth h hierarchy buf) (snd d)
          (tpm2_SequenceComplete H (fst d) auth h hierarchy buf)),
      tpm2_EventSequenceComplete = (\<lambda>d pcrAuth auth pcrHandle h buf.
        recorded (Call_EventSequenceComplete pcrAuth auth pcrHandle h buf) (snd d)
          (tpm2_EventSequenceComplete H (fst d) pcrAuth auth pcrHandle h buf))\<rparr>"

text \<open>The commands a device has received, none for a nil device.\<close>

definition callsOf :: "('dev \<times> tpm_call list) option \<Rightarrow> tpm_call list" where
  "callsOf device = (case device of None \<Rightarrow> [] | Some d \<Rightarrow> snd d)"

subsection \<open>A simulated TPM\<close>

text \<open>
  An incremental hash: a state for each algorithm, an update that absorbs bytes, and
  the digest of a state. The simulated TPM keeps the open sequences, each the algorithm
  it was started with and its hash state: starting a sequence opens one under a fresh
  handle, an update absorbs the chunk, completing absorbs the last buffer, returns the
  digest and closes the sequence. The one-shot command hashes at once. This is the
  simulated TPM of the spec's chunk-size independence property; everywhere else the
  TPM library is a parameter.
\<close>

record 'ctx hash_family =
  family_new :: "Algorithm \<Rightarrow> 'ctx"
  family_write :: "'ctx \<Rightarrow> bytes \<Rightarrow> 'ctx"
  family_sum :: "'ctx \<Rightarrow> bytes"

record 'ctx sim_device =
  sequences :: "Handle \<Rightarrow> (Algorithm \<times> 'ctx) option"
  next_handle :: Handle

definition simTicket :: "Handle \<Rightarrow> Ticket option" where
  "simTicket hierarchy =
     Some \<lparr>ticket_type = 0x8024, ticket_hierarchy = hierarchy, ticket_digest = []\<rparr>"

definition sim_Hash ::
  "'ctx hash_family \<Rightarrow> 'ctx sim_device \<Rightarrow> Algorithm \<Rightarrow> bytes \<Rightarrow> Handle \<Rightarrow>
   (string + bytes \<times> Ticket option) \<times> 'ctx sim_device"
where
  "sim_Hash F dev alg data hierarchy =
     (Inr (family_sum F (family_write F (family_new F alg) data), simTicket hierarchy), dev)"

definition sim_HashSequenceStart ::
  "'ctx hash_family \<Rightarrow> 'ctx sim_device \<Rightarrow> string \<Rightarrow> Algorithm \<Rightarrow>
   (string + Handle) \<times> 'ctx sim_device"
where
  "sim_HashSequenceStart F dev auth alg =
     (Inr (next_handle dev),
      dev\<lparr>sequences := (sequences dev)(next_handle dev \<mapsto> (alg, family_new F alg)),
          next_handle := next_handle dev + 1\<rparr>)"

definition sim_SequenceUpdate ::
  "'ctx hash_family \<Rightarrow> 'ctx sim_device \<Rightarrow> string \<Rightarrow> Handle \<Rightarrow> bytes \<Rightarrow>
   string option \<times> 'ctx sim_device"
where
  "sim_SequenceUpdate F dev auth h chunk =
     (case sequences dev h of
        None \<Rightarrow> (Some ''no such sequence'', dev)
      | Some (alg, c) \<Rightarrow>
          (None, dev\<lparr>sequences := (sequences dev)(h \<mapsto> (alg, family_write F c chunk))\<rparr>))"

definition sim_SequenceComplete ::
  "'ctx hash_family \<Rightarrow> 'ctx sim_device \<Rightarrow> string \<Rightarrow> Handle \<Rightarrow> Handle \<Rightarrow> bytes \<Rightarrow>
   (string + bytes \<times> Ticket option) \<times> 'ctx sim_device"
where
  "sim_SequenceComplete F dev auth h hierarchy buf =
     (case sequences dev h of
        None \<Rightarrow> (Inl ''no such sequence'', dev)
      | Some (alg, c) \<Rightarrow>
          (Inr (family_sum F (family_write F c buf), simTicket hierarchy),
           dev\<lparr>sequences := (sequences dev)(h := None)\<rparr>))"

definition sim_EventSequenceComplete ::
  "'ctx hash_family \<Rightarrow> 'ctx sim_device \<Rightarrow> string \<Rightarrow> string \<Rightarrow> Handle \<Rightarrow> Handle \<Rightarrow> bytes \<Rightarrow>
   (string + HashValue list) \<times> 'ctx sim_device"
where
  "sim_EventSequenceComplete F dev pcrAuth auth pcrHandle h buf =
     (case sequences dev h of
        None \<Rightarrow> (Inl ''no such sequence'', dev)
      | Some (alg, c) \<Rightarrow>
          (Inr [\<lparr>hash_alg = alg, hash_value = family_sum F (family_write F c buf)\<rparr>],
           dev\<lparr>sequences := (sequences dev)(h := None)\<rparr>))"

text \<open>
  The collaborators of the simulation: the local library gives, for the hash function
  \<open>hh\<close>, what \<open>local_new hh\<close> says, and hashes with the family's update and digest;
  \<open>toAlg\<close> is \<open>tpm2.HashToAlgorithm\<close>.
\<close>

definition simulated ::
  "'ctx hash_family \<Rightarrow> (crypto_Hash \<Rightarrow> 'ctx option) \<Rightarrow> (crypto_Hash \<Rightarrow> string + Algorithm) \<Rightarrow>
   ('ctx, 'ctx sim_device) hashing"
where
  "simulated F local_new toAlg =
     \<lparr>crypto_New = local_new,
      hash_Write = (\<lambda>c data. Inr (family_write F c data)),
      hash_Sum = family_sum F,
      tpm2_HashToAlgorithm = toAlg,
      tpm2_Hash = sim_Hash F,
      tpm2_HashSequenceStart = sim_HashSequenceStart F,
      tpm2_SequenceUpdate = sim_SequenceUpdate F,
      tpm2_SequenceComplete = sim_SequenceComplete F,
      tpm2_EventSequenceComplete = sim_EventSequenceComplete F\<rparr>"


text \<open>A device with no open sequence.\<close>

definition freshDevice :: "'ctx sim_device" where
  "freshDevice = \<lparr>sequences = (\<lambda>_. None), next_handle = 1\<rparr>"

text \<open>A resolver that returns the same at every call.\<close>

definition constResolver :: "crypto_Hash option \<times> 'dev option \<Rightarrow> 'dev HashResolver" where
  "constResolver r = (\<lambda>_. r)"

text \<open>
  A sample for concrete runs: the hash state is the bytes absorbed so far and the
  digest is that state; the local library has the hash functions 4 and 5
  (\<open>crypto.SHA224\<close> and \<open>crypto.SHA256\<close>), and only 5 has a TPM algorithm.
\<close>

definition sampleFamily :: "bytes hash_family" where
  "sampleFamily =
     \<lparr>family_new = (\<lambda>alg. []), family_write = (\<lambda>c b. c @ b), family_sum = (\<lambda>c. c)\<rparr>"

definition sampleToAlg :: "crypto_Hash \<Rightarrow> string + Algorithm" where
  "sampleToAlg hh = (if hh = 5 then Inr AlgSHA256 else Inl ''no TPM algorithm'')"

definition sampleLocalNew :: "crypto_Hash \<Rightarrow> bytes option" where
  "sampleLocalNew hh = (if hh = 4 \<or> hh = 5 then Some [] else None)"

section \<open>Properties: event types\<close>

lemmas EventType_defs =
  PrebootCert_def PostCode_def unused_def NoAction_def Separator_def Action_def
  EventTag_def SCRTMContents_def SCRTMVersion_def CpuMicrocode_def
  PlatformConfigFlags_def TableOfDevices_def CompactHash_def Ipl_def
  IplPartitionData_def NonhostCode_def NonhostConfig_def NonhostInfo_def
  OmitBootDeviceEvents_def EFIEventBase_def EFIVariableDriverConfig_def
  EFIVariableBoot_def EFIBootServicesApplication_def EFIBootServicesDriver_def
  EFIRuntimeServicesDriver_def EFIGPTEvent_def EFIAction_def
  EFIPlatformFirmwareBlob_def EFIHandoffTables_def EFIHCRTMEvent_def
  EFIVariableAuthority_def

lemma range_test_never:
  "\<not> ((et :: 32 word) < 0x80000000 \<and> et > 0x800000FF) \<and> \<not> (et < 0x0 \<and> et > 0x12)"
  by (simp add: word_less_nat_alt)

text \<open>
  A value is accepted exactly when it is a key of the table, and every key of the table
  lies in one of the two documented ranges.
\<close>

lemma UntrustedParseEventType_accepts:
  "UntrustedParseEventType et = Inr t \<longleftrightarrow> t = et \<and> et \<in> fst ` set eventTypeNames"
  using range_test_never [of et]
  by (force simp add: UntrustedParseEventType_def map_of_eq_None_iff
      split: option.splits dest: map_of_SomeD)

lemma eventTypeNames_in_ranges:
  "et \<in> fst ` set eventTypeNames \<Longrightarrow> et \<le> 0x12 \<or> (0x80000000 \<le> et \<and> et \<le> 0x800000FF)"
  by (auto simp add: eventTypeNames_def EventType_defs)

text \<open>
  C5. The claim: \<open>UntrustedParseEventType\<close> tells the two causes of failure apart,
  \<open>0x13\<close> (in range, unknown) giving the unknown-event-type error and \<open>0x80000100\<close>
  (out of range) the out-of-range error. The code does not: its range test joins
  \<open>et < 0x80000000\<close> and \<open>et > 0x800000FF\<close> by \<open>&&\<close>, which no value satisfies, so the
  out-of-range error is never returned and \<open>0x80000100\<close> gets the same error as \<open>0x13\<close>.
\<close>

theorem UntrustedParseEventType_out_of_range_as_unknown:
  "UntrustedParseEventType 0x80000100 = Inl (UnknownEventType 0x80000100)
   \<and> UntrustedParseEventType 0x13 = Inl (UnknownEventType 0x13)
   \<and> (\<forall>et e. UntrustedParseEventType et \<noteq> Inl (EventTypeNotInRange e))"
proof -
  have a: "UntrustedParseEventType 0x80000100 = Inl (UnknownEventType 0x80000100)"
    by (simp add: UntrustedParseEventType_def eventTypeNames_def EventType_defs)
  have b: "UntrustedParseEventType 0x13 = Inl (UnknownEventType 0x13)"
    by (simp add: UntrustedParseEventType_def eventTypeNames_def EventType_defs)
  have c: "UntrustedParseEventType et \<noteq> Inl (EventTypeNotInRange e)" for et e
    using range_test_never [of et]
    by (auto simp add: UntrustedParseEventType_def split: option.splits)
  from a b c show ?thesis by blast
qed

section \<open>Properties: tagged event data\<close>

lemma sint_ucast_32_64: "sint (ucast (w :: 32 word) :: 64 word) = uint w"
proof -
  have "uint w < 2 ^ 32" using uint_bounded [of w] by simp
  then have "uint w < 2 ^ 63" by simp
  moreover have "- (2 ^ 63) \<le> uint w" by (simp add: order_trans [of _ 0])
  ultimately show ?thesis by (simp add: signed_ucast_eq signed_take_bit_int_eq_self)
qed

lemma signed_take_bit_31:
  assumes "0 \<le> k" and "k < 2 ^ 32"
  shows "signed_take_bit 31 (k :: int) = (if k < 2 ^ 31 then k else k - 2 ^ 32)"
proof -
  have e: "signed_take_bit 31 k = (k + 2 ^ 31) mod 2 ^ 32 - 2 ^ 31"
    by (simp add: signed_take_bit_eq_take_bit_shift take_bit_eq_mod)
  show ?thesis
  proof (cases "k < 2 ^ 31")
    case True
    with assms have "(k + 2 ^ 31) mod 2 ^ 32 = k + 2 ^ 31" by simp
    with e True show ?thesis by simp
  next
    case False
    with assms have "(k + 2 ^ 31) mod 2 ^ 32 = k + 2 ^ 31 - 2 ^ 32"
      by (simp add: mod_pos_geq)
    with e False show ?thesis by simp
  qed
qed

lemma sint_32: "sint (w :: 32 word) = (if uint w < 2 ^ 31 then uint w else uint w - 2 ^ 32)"
proof -
  have "uint w < 2 ^ 32" using uint_bounded [of w] by simp
  then show ?thesis using signed_take_bit_31 [of "uint w"] by (simp add: sint_uint)
qed

text \<open>
  The conversion as a number: the value itself, unless \<open>int\<close> has 32 bits and the value
  is \<open>2^31\<close> or more.
\<close>

lemma int_of_uint32_value:
  "int_of_uint32 sz w =
     (if sz = Int32 \<and> 2 ^ 31 \<le> uint w then uint w - 2 ^ 32 else uint w)"
  by (cases sz) (simp_all add: sint_32 sint_ucast_32_64)

lemma int_of_uint32_fits:
  assumes "sz = Int64 \<or> w < 0x80000000"
  shows "int_of_uint32 sz w = uint w"
proof -
  from assms have "sz = Int64 \<or> uint w < 2 ^ 31"
    by (simp add: word_less_def)
  then show ?thesis by (auto simp add: int_of_uint32_value)
qed

lemma int_of_uint32_negative:
  "int_of_uint32 sz w < 0 \<longleftrightarrow> sz = Int32 \<and> 0x80000000 \<le> w"
proof -
  have "uint w < 2 ^ 32" using uint_bounded [of w] by simp
  moreover have "0 \<le> uint w" by simp
  moreover have "0x80000000 \<le> w \<longleftrightarrow> 2 ^ 31 \<le> uint w"
    by (simp add: word_le_def)
  ultimately show ?thesis by (auto simp add: int_of_uint32_value)
qed

lemma nat_less_uint: "int m < uint (w :: 32 word) \<longleftrightarrow> m < unat w"
proof -
  have "uint w = int (unat w)" by (rule uint_nat)
  then show ?thesis by (simp only: of_nat_less_iff)
qed

lemma binary_Read_header_Inr:
  "binary_Read_header d = Inr ((i, n), r) \<Longrightarrow> 8 \<le> length d \<and> r = drop 8 d"
  by (auto simp add: binary_Read_header_def ReadFull_def split: if_splits)

text \<open>
  C6. The claim: a header whose \<open>DataLen\<close> exceeds the bytes left after the 8-byte header
  is rejected before \<open>DataLen\<close> bytes are allocated. The guard of the code compares
  \<open>DataLen\<close> with \<open>len(d)\<close>, the length of the whole input. As amended, where
  \<open>DataLen\<close> fits \<open>int\<close> (\<open>int\<close> has 64 bits, or \<open>DataLen\<close> is below \<open>2^31\<close>): with the
  header read, a \<open>DataLen\<close> above \<open>len(d)\<close> is rejected by the guard and nothing is
  allocated; a \<open>DataLen\<close> above the bytes left but not above \<open>len(d)\<close> is rejected too, by
  the read of the data, after the buffer of \<open>DataLen\<close> bytes was allocated; a \<open>DataLen\<close>
  within the bytes left is accepted with exactly those bytes as \<open>Data\<close>.
\<close>

theorem ParseTaggedEventData_rejects_long_DataLen:
  assumes "binary_Read_header d = Inr ((i, n), r)"
    and "sz = Int64 \<or> n < 0x80000000"
  shows "length r + 8 = length d
    \<and> (length d < unat n \<longrightarrow>
         ParseTaggedEventData sz d =
           \<lparr>out = None, err = Some (TaggedEventLenTooLarge n (length d)), allocs = []\<rparr>)
    \<and> (length r < unat n \<and> unat n \<le> length d \<longrightarrow>
         ParseTaggedEventData sz d =
           \<lparr>out = Some \<lparr>ID = i, Data = replicate (unat n) 0\<rparr>,
            err = Some (ReadingData (if r = [] then EOF else ErrUnexpectedEOF)),
            allocs = [unat n]\<rparr>)
    \<and> (unat n \<le> length r \<longrightarrow>
         ParseTaggedEventData sz d =
           \<lparr>out = Some \<lparr>ID = i, Data = take (unat n) r\<rparr>, err = None, allocs = [unat n]\<rparr>)"
proof -
  from assms(1) have len: "8 \<le> length d" and r: "r = drop 8 d"
    using binary_Read_header_Inr by blast+
  have l: "length r + 8 = length d" using len r by simp
  note v = int_of_uint32_fits [OF assms(2)]
  have g: "length d < unat n \<longrightarrow>
         ParseTaggedEventData sz d =
           \<lparr>out = None, err = Some (TaggedEventLenTooLarge n (length d)), allocs = []\<rparr>"
    using assms(1) by (simp add: ParseTaggedEventData_def v nat_less_uint)
  have m: "length r < unat n \<and> unat n \<le> length d \<longrightarrow>
         ParseTaggedEventData sz d =
           \<lparr>out = Some \<lparr>ID = i, Data = replicate (unat n) 0\<rparr>,
            err = Some (ReadingData (if r = [] then EOF else ErrUnexpectedEOF)),
            allocs = [unat n]\<rparr>"
    using assms(1)
    by (simp add: ParseTaggedEventData_def v nat_less_uint ReadFull_def Let_def)
  have k: "unat n \<le> length r \<longrightarrow>
         ParseTaggedEventData sz d =
           \<lparr>out = Some \<lparr>ID = i, Data = take (unat n) r\<rparr>, err = None, allocs = [unat n]\<rparr>"
    using assms(1) l
    by (simp add: ParseTaggedEventData_def v nat_less_uint ReadFull_def Let_def)
  from l g m k show ?thesis by blast
qed

theorem ParseTaggedEventData_rejects_long_DataLen_witness:
  "ParseTaggedEventData Int64 [1, 0, 0, 0, 2, 0, 0, 0, 7] =
     \<lparr>out = Some \<lparr>ID = 1, Data = replicate 2 0\<rparr>, err = Some (ReadingData ErrUnexpectedEOF),
      allocs = [2]\<rparr>
   \<and> ParseTaggedEventData Int32 [1, 0, 0, 0, 20, 0, 0, 0, 7] =
     \<lparr>out = None, err = Some (TaggedEventLenTooLarge 20 9), allocs = []\<rparr>
   \<and> ParseTaggedEventData Int64 [1, 0, 0, 0, 0, 0, 0, 0x80, 7] =
     \<lparr>out = None, err = Some (TaggedEventLenTooLarge 0x80000000 9), allocs = []\<rparr>
   \<and> ParseTaggedEventData Int32 [1, 0, 0, 0, 2, 0, 0, 0, 7, 9, 4] =
     \<lparr>out = Some \<lparr>ID = 1, Data = [7, 9]\<rparr>, err = None, allocs = [2]\<rparr>"
proof -
  have h1: "binary_Read_header [1, 0, 0, 0, 2, 0, 0, 0, 7] = Inr ((1, 2), [7])"
    by (simp add: binary_Read_header_def ReadFull_def)
  have h2: "binary_Read_header [1, 0, 0, 0, 20, 0, 0, 0, 7] = Inr ((1, 20), [7])"
    by (simp add: binary_Read_header_def ReadFull_def)
  have h3: "binary_Read_header [1, 0, 0, 0, 0, 0, 0, 0x80, 7] = Inr ((1, 0x80000000), [7])"
    by (simp add: binary_Read_header_def ReadFull_def)
  have h4: "binary_Read_header [1, 0, 0, 0, 2, 0, 0, 0, 7, 9, 4] = Inr ((1, 2), [7, 9, 4])"
    by (simp add: binary_Read_header_def ReadFull_def)
  have w1: "Int64 = Int64 \<or> (2 :: 32 word) < 0x80000000" by simp
  have w2: "Int32 = Int64 \<or> (20 :: 32 word) < 0x80000000" by simp
  have w3: "Int64 = Int64 \<or> (0x80000000 :: 32 word) < 0x80000000" by simp
  have w4: "Int32 = Int64 \<or> (2 :: 32 word) < 0x80000000" by simp
  show ?thesis
    using ParseTaggedEventData_rejects_long_DataLen [OF h1 w1]
      ParseTaggedEventData_rejects_long_DataLen [OF h2 w2]
      ParseTaggedEventData_rejects_long_DataLen [OF h3 w3]
      ParseTaggedEventData_rejects_long_DataLen [OF h4 w4]
    by simp
qed

theorem ParseTaggedEventData_allocates_before_rejecting:
  "binary_Read_header [0, 0, 0, 0, 8, 0, 0, 0] = Inr ((0, 8), [])
   \<and> ParseTaggedEventData Int64 [0, 0, 0, 0, 8, 0, 0, 0] =
     \<lparr>out = Some \<lparr>ID = 0, Data = replicate 8 0\<rparr>,
      err = Some (ReadingData EOF), allocs = [8]\<rparr>
   \<and> ParseTaggedEventData Int32 [0, 0, 0, 0, 8, 0, 0, 0] =
     \<lparr>out = Some \<lparr>ID = 0, Data = replicate 8 0\<rparr>,
      err = Some (ReadingData EOF), allocs = [8]\<rparr>"
  by (simp add: ParseTaggedEventData_def binary_Read_header_def ReadFull_def
      int_of_uint32_value Let_def)

text \<open>
  Outside the amended claim: on a 32-bit \<open>int\<close> a \<open>DataLen\<close> of \<open>2^31\<close> or more is
  negative once converted, so the guard lets it through whatever the input's length,
  and the call panics in \<open>make\<close> without allocating.
\<close>

lemma ParseTaggedEventData_wrapped_guard:
  assumes "binary_Read_header d = Inr ((i, n), r)"
    and "0x80000000 \<le> n"
  shows "ParseTaggedEventData Int32 d =
           \<lparr>out = None, err = Some PanicMakesliceLenOutOfRange, allocs = []\<rparr>"
proof -
  have "int_of_uint32 Int32 n < 0"
    using assms(2) by (simp only: int_of_uint32_negative)
  moreover from this have "\<not> int_of_uint32 Int32 n > int (length d)"
    by linarith
  ultimately show ?thesis
    using assms(1) by (simp add: ParseTaggedEventData_def del: int_of_uint32.simps)
qed

text \<open>
  C7. The claim: no parse allocates past \<open>maxBytesBufferSize\<close>, and in particular
  \<open>ParseTaggedEventData\<close> never allocates a \<open>Data\<close> buffer above 1 MiB. No function of
  the sources reads \<open>maxBytesBufferSize\<close>; what bounds the buffer of
  \<open>ParseTaggedEventData\<close> is its guard. As amended: the \<open>Data\<close> buffer is never larger
  than the input itself, hence not above 1 MiB when the input is not.
\<close>

theorem ParseTaggedEventData_allocation_bound:
  assumes "n \<in> set (allocs (ParseTaggedEventData sz d))"
  shows "n \<le> length d \<and> (length d \<le> maxBytesBufferSize \<longrightarrow> n \<le> maxBytesBufferSize)"
proof -
  have "n \<le> length d"
  proof (cases "binary_Read_header d")
    case (Inl e)
    with assms show ?thesis by (simp add: ParseTaggedEventData_def)
  next
    case (Inr p)
    then obtain i w r where h: "binary_Read_header d = Inr ((i, w), r)"
      by (cases p) auto
    from assms h have g: "\<not> int_of_uint32 sz w > int (length d)"
      and f: "\<not> int_of_uint32 sz w < 0" and n: "n = unat w"
      by (auto simp add: ParseTaggedEventData_def Let_def
          simp del: int_of_uint32.simps split: if_splits sum.splits prod.splits)
    from f have "sz = Int64 \<or> w < 0x80000000"
      by (cases sz) (auto simp add: int_of_uint32_negative simp del: int_of_uint32.simps)
    then have "int_of_uint32 sz w = uint w" by (rule int_of_uint32_fits)
    with g n show ?thesis by (simp add: nat_less_uint)
  qed
  then show ?thesis by simp
qed

theorem ParseTaggedEventData_allocation_bound_witness:
  "allocs (ParseTaggedEventData Int64 [1, 0, 0, 0, 2, 0, 0, 0, 7, 9, 4]) = [2]
   \<and> (2 :: nat) \<le> length [1, 0, 0, 0, 2, 0, 0, 0, 7, 9, 4 :: byte]
   \<and> (2 :: nat) \<le> maxBytesBufferSize"
proof -
  have a: "allocs (ParseTaggedEventData Int64 [1, 0, 0, 0, 2, 0, 0, 0, 7, 9, 4]) = [2]"
    by (simp add: ParseTaggedEventData_def binary_Read_header_def ReadFull_def
        int_of_uint32_value Let_def)
  then have "2 \<in> set (allocs (ParseTaggedEventData Int64 [1, 0, 0, 0, 2, 0, 0, 0, 7, 9, 4]))"
    by simp
  from ParseTaggedEventData_allocation_bound [OF this] a show ?thesis
    by (simp add: maxBytesBufferSize_def)
qed

theorem ParseTaggedEventData_allocates_above_maxBytesBufferSize:
  "ParseTaggedEventData Int64 ([0, 0, 0, 0, 1, 0, 0x10, 0] @ replicate 1048577 0) =
     \<lparr>out = Some \<lparr>ID = 0, Data = replicate 1048577 0\<rparr>, err = None, allocs = [1048577]\<rparr>
   \<and> ParseTaggedEventData Int32 ([0, 0, 0, 0, 1, 0, 0x10, 0] @ replicate 1048577 0) =
     \<lparr>out = Some \<lparr>ID = 0, Data = replicate 1048577 0\<rparr>, err = None, allocs = [1048577]\<rparr>
   \<and> maxBytesBufferSize < 1048577"
  by (simp add: ParseTaggedEventData_def binary_Read_header_def ReadFull_def
      int_of_uint32_value Let_def maxBytesBufferSize_def)

section \<open>Properties: attestation verification\<close>

subsection \<open>Getters, keys and trust\<close>

lemma Get_Some [simp]:
  "GetAkPub (Some a) = AkPub a"
  "GetQuotes (Some a) = Quotes a"
  "GetEventLog (Some a) = EventLog a"
  "GetCanonicalEventLog (Some a) = CanonicalEventLog a"
  by (simp_all add: GetAkPub_def GetQuotes_def GetEventLog_def GetCanonicalEventLog_def)

lemma algIn_set: "algIn h algs \<longleftrightarrow> h \<in> set algs"
  by (induction algs) auto

lemma pubKeysEqual_iff:
  "pubKeysEqual k1 k2 \<longleftrightarrow>
     k1 = k2 \<and> ((\<exists>n e. k1 = RSAPublicKey n e) \<or> (\<exists>c x y. k1 = ECDSAPublicKey c x y))"
  by (cases k1; cases k2) auto

lemma checkKnownAKs_None:
  "checkKnownAKs ak ts = None \<longleftrightarrow> (\<exists>t \<in> set ts. pubKeysEqual ak t)"
  by (induction ts) auto

lemma checkAkTrusted_None:
  "checkAkTrusted ak opts = None \<longleftrightarrow> (\<exists>t \<in> set (TrustedAKs opts). pubKeysEqual ak t)"
  by (auto simp add: checkAkTrusted_def checkKnownAKs_None)

lemma validateAkCert_None:
  "validateAkCert C cert intermediates roots = None \<longleftrightarrow>
     cert \<noteq> [] \<and> (\<exists>c. x509_ParseCertificate C cert = Inr c
                      \<and> Certificate_Verify C c roots intermediates = None)"
  by (auto simp add: validateAkCert_def split: sum.splits option.splits)

lemma verifyAK_None:
  "verifyAK C (Some a) opts ak = None \<longleftrightarrow>
     checkAkTrusted ak opts = None
     \<or> validateAkCert C (AkCert a) (IntermediateCerts opts) (TrustedRootCerts opts) = None"
  by (auto simp add: verifyAK_def split: option.splits)

lemma verifyAK_untrusted:
  "verifyAK C (Some a) opts ak = Some (FailedValidateAK e) \<longleftrightarrow>
     checkAkTrusted ak opts \<noteq> None
     \<and> validateAkCert C (AkCert a) (IntermediateCerts opts) (TrustedRootCerts opts) = Some e"
  by (auto simp add: verifyAK_def split: option.splits)

subsection \<open>The loop over the candidate quotes\<close>

lemma verifyQuoteAttempt_Inr:
  "verifyQuoteAttempt C att opts ak q = Inr st \<longleftrightarrow>
     internal_VerifyQuote C q ak (Nonce opts) = None
     \<and> (\<exists>state celState.
          parsePCClientEventLog C (GetEventLog att) (GetPcrs q) = Inr state
          \<and> parseCanonicalEventLog C (GetCanonicalEventLog att) (GetPcrs q) = Inr celState
          \<and> checkHashAlgSupported (quoteAlgorithm q) opts = None
          \<and> st = proto_Merge C celState state)"
  by (auto simp add: verifyQuoteAttempt_def quoteAlgorithm_def split: option.splits sum.splits)

lemma verifyQuoteAttempt_errors:
  "(verifyQuoteAttempt C att opts ak q = Inl (FailedVerifyQuote e1) \<longleftrightarrow>
      internal_VerifyQuote C q ak (Nonce opts) = Some e1)"
  "(verifyQuoteAttempt C att opts ak q = Inl (FailedValidatePCClientEventLog e2) \<longleftrightarrow>
      internal_VerifyQuote C q ak (Nonce opts) = None
      \<and> parsePCClientEventLog C (GetEventLog att) (GetPcrs q) = Inl e2)"
  "(verifyQuoteAttempt C att opts ak q = Inl (FailedValidateCanonicalEventLog e3) \<longleftrightarrow>
      internal_VerifyQuote C q ak (Nonce opts) = None
      \<and> (\<exists>state. parsePCClientEventLog C (GetEventLog att) (GetPcrs q) = Inr state)
      \<and> parseCanonicalEventLog C (GetCanonicalEventLog att) (GetPcrs q) = Inl e3)"
  "(verifyQuoteAttempt C att opts ak q = Inl (WhenVerifyingPCRs e4) \<longleftrightarrow>
      internal_VerifyQuote C q ak (Nonce opts) = None
      \<and> (\<exists>state. parsePCClientEventLog C (GetEventLog att) (GetPcrs q) = Inr state)
      \<and> (\<exists>celState.
            parseCanonicalEventLog C (GetCanonicalEventLog att) (GetPcrs q) = Inr celState)
      \<and> checkHashAlgSupported (quoteAlgorithm q) opts = Some e4)"
  by (auto simp add: verifyQuoteAttempt_def quoteAlgorithm_def split: option.splits sum.splits)

lemma verifyQuoteAttempt_not_trust_error:
  "verifyQuoteAttempt C att opts ak q \<noteq> Inl (FailedValidateAK e)"
  by (auto simp add: verifyQuoteAttempt_def split: option.splits sum.splits)

lemma verifyQuotes_all_fail:
  "\<forall>q \<in> set qs. isl (verifyQuoteAttempt C att opts ak q) \<Longrightarrow>
   verifyQuotes C att opts ak l qs =
     (if qs = [] then (case l of Some e \<Rightarrow> Inl e | None \<Rightarrow> Inl NoSupportedQuote)
      else verifyQuoteAttempt C att opts ak (last qs))"
proof (induction qs arbitrary: l)
  case Nil
  then show ?case by simp
next
  case (Cons q qs)
  then obtain e where e: "verifyQuoteAttempt C att opts ak q = Inl e"
    by (cases "verifyQuoteAttempt C att opts ak q") auto
  from Cons have "\<forall>q \<in> set qs. isl (verifyQuoteAttempt C att opts ak q)" by simp
  from Cons.IH [OF this, of "Some e"] e show ?case by simp
qed

lemma verifyQuotes_first_success:
  "\<forall>p \<in> set pre. isl (verifyQuoteAttempt C att opts ak p) \<Longrightarrow>
   verifyQuoteAttempt C att opts ak q = Inr st \<Longrightarrow>
   verifyQuotes C att opts ak l (pre @ q # post) = Inr st"
proof (induction pre arbitrary: l)
  case Nil
  then show ?case by simp
next
  case (Cons p pre)
  then obtain e where e: "verifyQuoteAttempt C att opts ak p = Inl e"
    by (cases "verifyQuoteAttempt C att opts ak p") auto
  from Cons have "\<forall>p \<in> set pre. isl (verifyQuoteAttempt C att opts ak p)" by simp
  from Cons.IH [OF this Cons.prems(2), of "Some e"] e show ?case by simp
qed

lemma verifyQuotes_Inl:
  "verifyQuotes C att opts ak l qs = Inl e \<Longrightarrow>
   \<forall>q \<in> set qs. isl (verifyQuoteAttempt C att opts ak q)"
  by (induction qs arbitrary: l) (auto split: sum.splits)

lemma verifyQuotes_not_trust_error:
  "l \<noteq> Some (FailedValidateAK e) \<Longrightarrow>
   verifyQuotes C att opts ak l qs \<noteq> Inl (FailedValidateAK e)"
proof (induction qs arbitrary: l)
  case Nil
  then show ?case by (auto split: option.splits)
next
  case (Cons q qs)
  show ?case
  proof (cases "verifyQuoteAttempt C att opts ak q")
    case (Inl x)
    then have "x \<noteq> FailedValidateAK e"
      using verifyQuoteAttempt_not_trust_error [of C att opts ak q e] by auto
    with Inl Cons.IH [of "Some x"] show ?thesis by simp
  next
    case (Inr st)
    then show ?thesis by simp
  qed
qed

text \<open>
  Once the key is decoded and trusted and its signing hash algorithm accepted, the
  call is the loop over the candidates.
\<close>

lemma VerifyAttestation_quotes:
  assumes "tpm2_DecodePublic C (AkPub att) = Inr pub"
    and "Public_Key C pub = Inr ak"
    and "checkAkTrusted ak opts = None
         \<or> validateAkCert C (AkCert att) (IntermediateCerts opts) (TrustedRootCerts opts) = None"
    and "internal_GetSigningHashAlg C pub = Inr signHashAlg"
    and "checkHashAlgSupported signHashAlg opts = None"
  shows "VerifyAttestation C (Some att) opts =
           verifyQuotes C (Some att) opts ak None (supportedQuotes (Quotes att))"
proof -
  from assms(3) have "verifyAK C (Some att) opts ak = None"
    by (simp only: verifyAK_None)
  with assms(1,2,4,5) show ?thesis
    by (simp add: VerifyAttestation_def)
qed

lemma VerifyAttestation_untrusted:
  assumes "tpm2_DecodePublic C (AkPub att) = Inr pub"
    and "Public_Key C pub = Inr ak"
  shows "VerifyAttestation C (Some att) opts = Inl (FailedValidateAK e) \<longleftrightarrow>
     checkAkTrusted ak opts \<noteq> None \<and>
     validateAkCert C (AkCert att) (IntermediateCerts opts) (TrustedRootCerts opts) = Some e"
proof (cases "verifyAK C (Some att) opts ak")
  case None
  then have n: "\<not> (checkAkTrusted ak opts \<noteq> None \<and>
     validateAkCert C (AkCert att) (IntermediateCerts opts) (TrustedRootCerts opts) = Some e)"
    by (auto simp add: verifyAK_None)
  have "VerifyAttestation C (Some att) opts \<noteq> Inl (FailedValidateAK e)"
    using assms None verifyQuotes_not_trust_error [of None e C "Some att" opts ak]
    by (auto simp add: VerifyAttestation_def split: sum.splits option.splits)
  with n show ?thesis by blast
next
  case (Some x)
  with assms have "VerifyAttestation C (Some att) opts = Inl x"
    by (simp add: VerifyAttestation_def)
  then have "VerifyAttestation C (Some att) opts = Inl (FailedValidateAK e) \<longleftrightarrow>
      x = FailedValidateAK e"
    by simp
  also have "\<dots> \<longleftrightarrow> verifyAK C (Some att) opts ak = Some (FailedValidateAK e)"
    using Some by simp
  also have "\<dots> \<longleftrightarrow> checkAkTrusted ak opts \<noteq> None \<and>
     validateAkCert C (AkCert att) (IntermediateCerts opts) (TrustedRootCerts opts) = Some e"
    by (rule verifyAK_untrusted)
  finally show ?thesis .
qed

lemma sample_preamble:
  "tpm2_DecodePublic sampleCollaborators (AkPub (sampleAttestation qs)) = Inr (RSAPublicKey 1 65537)"
  "Public_Key sampleCollaborators (RSAPublicKey 1 65537) = Inr (RSAPublicKey 1 65537)"
  "checkAkTrusted (RSAPublicKey 1 65537) sampleOpts = None
   \<or> validateAkCert sampleCollaborators (AkCert (sampleAttestation qs))
        (IntermediateCerts sampleOpts) (TrustedRootCerts sampleOpts) = None"
  "internal_GetSigningHashAlg sampleCollaborators (RSAPublicKey 1 65537) = Inr AlgSHA256"
  "checkHashAlgSupported AlgSHA256 sampleOpts = None"
  by (simp_all add: sampleCollaborators_def sampleAttestation_def sampleOpts_def
      checkAkTrusted_def checkHashAlgSupported_def supportedHashAlgs_def
      AlgSHA1_def AlgSHA256_def AlgSHA384_def AlgSHA512_def)

subsection \<open>AK trust\<close>

text \<open>
  C1. With the AK public area decoded to the key \<open>ak\<close>, \<open>VerifyAttestation\<close> goes past
  the trust step (it does not end with the untrusted-key error) exactly when some key
  of \<open>opts.TrustedAKs\<close> equals \<open>ak\<close> by \<open>pubKeysEqual\<close>, or the AK certificate is not
  empty, parses and verifies against the roots and intermediates. \<open>pubKeysEqual\<close>
  holds exactly of two RSA keys or two ECDSA keys with the same components, so a key
  of any other type never compares equal. When both ways fail, the call ends with
  \<open>FailedValidateAK\<close> carrying the certificate's error (the message reads \<open>AKPub is
  untrusted and\<close> that error), whatever the quotes and whatever \<open>VerifyQuote\<close> would say
  of them.
\<close>

theorem VerifyAttestation_AK_trust:
  assumes "tpm2_DecodePublic C (AkPub att) = Inr pub"
    and "Public_Key C pub = Inr ak"
  shows "((\<forall>e. VerifyAttestation C (Some att) opts \<noteq> Inl (FailedValidateAK e)) \<longleftrightarrow>
            (\<exists>t \<in> set (TrustedAKs opts). pubKeysEqual ak t)
            \<or> (AkCert att \<noteq> []
                \<and> (\<exists>c. x509_ParseCertificate C (AkCert att) = Inr c
                        \<and> Certificate_Verify C c (TrustedRootCerts opts)
                             (IntermediateCerts opts) = None)))
    \<and> (\<forall>t. pubKeysEqual ak t \<longleftrightarrow>
              ak = t \<and> ((\<exists>n e. ak = RSAPublicKey n e) \<or> (\<exists>c x y. ak = ECDSAPublicKey c x y)))
    \<and> (\<forall>e. (\<forall>t \<in> set (TrustedAKs opts). \<not> pubKeysEqual ak t)
             \<and> validateAkCert C (AkCert att) (IntermediateCerts opts) (TrustedRootCerts opts)
                 = Some e
             \<longrightarrow> (\<forall>qs vq. VerifyAttestation (C\<lparr>internal_VerifyQuote := vq\<rparr>)
                            (Some (att\<lparr>Quotes := qs\<rparr>)) opts = Inl (FailedValidateAK e)))"
proof -
  have u: "VerifyAttestation C (Some att) opts = Inl (FailedValidateAK e) \<longleftrightarrow>
     checkAkTrusted ak opts \<noteq> None \<and>
     validateAkCert C (AkCert att) (IntermediateCerts opts) (TrustedRootCerts opts) = Some e" for e
    using assms by (rule VerifyAttestation_untrusted)
  have a: "(\<forall>e. VerifyAttestation C (Some att) opts \<noteq> Inl (FailedValidateAK e)) \<longleftrightarrow>
            (\<exists>t \<in> set (TrustedAKs opts). pubKeysEqual ak t)
            \<or> (AkCert att \<noteq> []
                \<and> (\<exists>c. x509_ParseCertificate C (AkCert att) = Inr c
                        \<and> Certificate_Verify C c (TrustedRootCerts opts)
                             (IntermediateCerts opts) = None))"
    unfolding u checkAkTrusted_None [symmetric] validateAkCert_None [symmetric]
    by auto
  have b: "\<forall>t. pubKeysEqual ak t \<longleftrightarrow>
              ak = t \<and> ((\<exists>n e. ak = RSAPublicKey n e) \<or> (\<exists>c x y. ak = ECDSAPublicKey c x y))"
    using pubKeysEqual_iff by blast
  have c: "VerifyAttestation (C\<lparr>internal_VerifyQuote := vq\<rparr>) (Some (att\<lparr>Quotes := qs\<rparr>)) opts
             = Inl (FailedValidateAK e)"
    if "\<forall>t \<in> set (TrustedAKs opts). \<not> pubKeysEqual ak t"
      and "validateAkCert C (AkCert att) (IntermediateCerts opts) (TrustedRootCerts opts) = Some e"
    for e qs vq
  proof -
    let ?C = "C\<lparr>internal_VerifyQuote := vq\<rparr>" and ?a = "att\<lparr>Quotes := qs\<rparr>"
    from that(1) have "checkAkTrusted ak opts \<noteq> None"
      by (simp add: checkAkTrusted_None)
    moreover have "validateAkCert ?C (AkCert ?a) (IntermediateCerts opts) (TrustedRootCerts opts)
        = validateAkCert C (AkCert att) (IntermediateCerts opts) (TrustedRootCerts opts)"
      by (simp add: validateAkCert_def split: sum.splits)
    ultimately have "verifyAK ?C (Some ?a) opts ak = Some (FailedValidateAK e)"
      using that(2) by (simp only: verifyAK_untrusted) simp
    moreover have "tpm2_DecodePublic ?C (AkPub ?a) = Inr pub" "Public_Key ?C pub = Inr ak"
      using assms by simp_all
    ultimately show ?thesis
      by (simp add: VerifyAttestation_def)
  qed
  from a b c show ?thesis by blast
qed

theorem VerifyAttestation_AK_trust_witness:
  "VerifyAttestation sampleCollaborators (Some (sampleAttestation [sampleQuote 11 [1]]))
       (sampleOpts\<lparr>TrustedAKs := [OtherPublicKey [1]]\<rparr>)
     = Inl (FailedValidateAK AKCertEmpty)
   \<and> pubKeysEqual (RSAPublicKey 1 65537) (RSAPublicKey 1 65537)"
proof -
  let ?C = sampleCollaborators
  let ?A = "sampleAttestation []"
  let ?O = "sampleOpts\<lparr>TrustedAKs := [OtherPublicKey [1]]\<rparr>"
  have d: "tpm2_DecodePublic ?C (AkPub ?A) = Inr (RSAPublicKey 1 65537)"
    by (simp add: sampleCollaborators_def sampleAttestation_def)
  have k: "Public_Key ?C (RSAPublicKey 1 65537) = Inr (RSAPublicKey 1 65537)"
    by (simp add: sampleCollaborators_def)
  have n: "\<forall>t \<in> set (TrustedAKs ?O). \<not> pubKeysEqual (RSAPublicKey 1 65537) t"
    by simp
  have v: "validateAkCert ?C (AkCert ?A) (IntermediateCerts ?O) (TrustedRootCerts ?O)
             = Some AKCertEmpty"
    by (simp add: validateAkCert_def sampleAttestation_def)
  have s: "?C\<lparr>internal_VerifyQuote := internal_VerifyQuote ?C\<rparr> = ?C" by simp
  have q: "?A\<lparr>Quotes := [sampleQuote 11 [1]]\<rparr> = sampleAttestation [sampleQuote 11 [1]]"
    by (simp add: sampleAttestation_def)
  from VerifyAttestation_AK_trust [OF d k, of ?O] n v
  have "VerifyAttestation (?C\<lparr>internal_VerifyQuote := internal_VerifyQuote ?C\<rparr>)
          (Some (?A\<lparr>Quotes := [sampleQuote 11 [1]]\<rparr>)) ?O = Inl (FailedValidateAK AKCertEmpty)"
    by blast
  moreover from VerifyAttestation_AK_trust [OF d k, of ?O]
  have "pubKeysEqual (RSAPublicKey 1 65537) (RSAPublicKey 1 65537)" by blast
  ultimately show ?thesis unfolding s q by simp
qed

subsection \<open>Quote selection\<close>

lemma supportedQuotesFrom_concat:
  "supportedQuotesFrom algs quotes acc = acc @ concat (map (\<lambda>a. firstQuoteOf a quotes) algs)"
  by (induction algs arbitrary: acc) auto

lemma supportedQuotes_unfold:
  "supportedQuotes quotes =
     firstQuoteOf AlgSHA512 quotes @ firstQuoteOf AlgSHA384 quotes @
     firstQuoteOf AlgSHA256 quotes @ firstQuoteOf AlgSHA1 quotes"
  by (simp add: supportedQuotes_def supportedQuotesFrom_concat supportedHashAlgs_def)

lemma firstQuoteOf_find:
  "firstQuoteOf alg quotes =
     (case find (\<lambda>q. quoteAlgorithm q = alg) quotes of None \<Rightarrow> [] | Some q \<Rightarrow> [q])"
  by (induction quotes) auto

lemma filter_firstQuoteOf:
  "filter (\<lambda>q. quoteAlgorithm q = a) (firstQuoteOf b quotes) =
     (if a = b then firstQuoteOf b quotes else [])"
  by (induction quotes) auto

lemma map_firstQuoteOf:
  "map quoteAlgorithm (firstQuoteOf a quotes) =
     (if a \<in> quoteAlgorithm ` set quotes then [a] else [])"
  by (induction quotes) auto

lemma firstQuoteOf_own: "firstQuoteOf a (firstQuoteOf a quotes) = firstQuoteOf a quotes"
  by (induction quotes) auto

lemma firstQuoteOf_other: "a \<noteq> b \<Longrightarrow> firstQuoteOf a (firstQuoteOf b quotes) = []"
  by (induction quotes) auto

lemma firstQuoteOf_append:
  "firstQuoteOf a (xs @ ys) =
     (if firstQuoteOf a xs = [] then firstQuoteOf a ys else firstQuoteOf a xs)"
  by (induction xs) auto

lemma firstQuoteOf_alg: "q \<in> set (firstQuoteOf a quotes) \<Longrightarrow> quoteAlgorithm q = a"
  by (induction quotes) (auto split: if_splits)

lemma find_firstQuoteOf:
  assumes "q \<in> set (firstQuoteOf a quotes)"
  shows "find (\<lambda>p. quoteAlgorithm p = quoteAlgorithm q) quotes = Some q"
proof -
  from assms have "quoteAlgorithm q = a" by (rule firstQuoteOf_alg)
  with assms show ?thesis by (simp add: firstQuoteOf_find split: option.splits)
qed

lemma in_supportedQuotes:
  "q \<in> set (supportedQuotes quotes) \<Longrightarrow>
   find (\<lambda>p. quoteAlgorithm p = quoteAlgorithm q) quotes = Some q"
  by (auto simp add: supportedQuotes_unfold dest: find_firstQuoteOf)

lemma Alg_distinct:
  "AlgSHA512 \<noteq> AlgSHA384" "AlgSHA512 \<noteq> AlgSHA256" "AlgSHA512 \<noteq> AlgSHA1"
  "AlgSHA384 \<noteq> AlgSHA256" "AlgSHA384 \<noteq> AlgSHA1" "AlgSHA256 \<noteq> AlgSHA1"
  "AlgSHA384 \<noteq> AlgSHA512" "AlgSHA256 \<noteq> AlgSHA512" "AlgSHA1 \<noteq> AlgSHA512"
  "AlgSHA256 \<noteq> AlgSHA384" "AlgSHA1 \<noteq> AlgSHA384" "AlgSHA1 \<noteq> AlgSHA256"
  by (simp_all add: AlgSHA512_def AlgSHA384_def AlgSHA256_def AlgSHA1_def)

lemma supportedQuotes_idem: "supportedQuotes (supportedQuotes quotes) = supportedQuotes quotes"
  by (simp add: supportedQuotes_unfold firstQuoteOf_append firstQuoteOf_own
      firstQuoteOf_other Alg_distinct)

lemma checkHashAlgSupported_None:
  "checkHashAlgSupported h opts = None \<longleftrightarrow>
     h \<in> set supportedHashAlgs \<and> (h = AlgSHA1 \<longrightarrow> AllowSHA1 opts)"
  by (auto simp add: checkHashAlgSupported_def algIn_set)

lemma checkHashAlgSupported_SHA1:
  "checkHashAlgSupported h opts = Some SHA1NotAllowed \<longleftrightarrow> h = AlgSHA1 \<and> \<not> AllowSHA1 opts"
  by (auto simp add: checkHashAlgSupported_def)

lemma verifyQuoteAttempt_Quotes_update:
  "verifyQuoteAttempt C (Some (att\<lparr>Quotes := x\<rparr>)) opts ak q =
   verifyQuoteAttempt C (Some att) opts ak q"
  by (simp add: verifyQuoteAttempt_def cong: option.case_cong sum.case_cong)

lemma verifyQuotes_Quotes_update:
  "verifyQuotes C (Some (att\<lparr>Quotes := x\<rparr>)) opts ak l qs =
   verifyQuotes C (Some att) opts ak l qs"
  by (induction qs arbitrary: l)
     (simp_all add: verifyQuoteAttempt_Quotes_update cong: sum.case_cong)

lemma verifyAK_Quotes_update:
  "verifyAK C (Some (att\<lparr>Quotes := x\<rparr>)) opts ak = verifyAK C (Some att) opts ak"
  by (simp add: verifyAK_def cong: option.case_cong)

lemmas sample_defs =
  sampleCollaborators_def sampleQuote_def sampleAttestation_def sampleOpts_def
  VerifyAttestation_def verifyAK_def verifyQuoteAttempt_def supportedQuotes_unfold
  quoteAlgorithm_def GetHash_def GetPcrs_def checkAkTrusted_def checkHashAlgSupported_def
  validateAkCert_def supportedHashAlgs_def AlgSHA1_def AlgSHA256_def AlgSHA384_def
  AlgSHA512_def

text \<open>
  C9. Among the quotes \<open>supportedQuotes\<close> returns, those of one algorithm are: for a
  supported algorithm, the first quote of the input with that algorithm, if there is
  one, and nothing else; for any other algorithm, none. So there is at most one per
  algorithm. \<open>VerifyAttestation\<close> reads the quotes of the attestation only through
  \<open>supportedQuotes\<close>: replacing the quotes by the selected ones changes nothing, so a
  second quote of an algorithm is never attempted.
\<close>

theorem supportedQuotes_first_per_algorithm:
  "filter (\<lambda>q. quoteAlgorithm q = alg) (supportedQuotes quotes) =
     (if alg \<in> set supportedHashAlgs
      then (case find (\<lambda>q. quoteAlgorithm q = alg) quotes of None \<Rightarrow> [] | Some q \<Rightarrow> [q])
      else [])
   \<and> length (filter (\<lambda>q. quoteAlgorithm q = alg) (supportedQuotes quotes)) \<le> 1
   \<and> VerifyAttestation C (Some (att\<lparr>Quotes := supportedQuotes (Quotes att)\<rparr>)) opts
       = VerifyAttestation C (Some att) opts"
proof -
  have a: "filter (\<lambda>q. quoteAlgorithm q = alg) (supportedQuotes quotes) =
     (if alg \<in> set supportedHashAlgs
      then (case find (\<lambda>q. quoteAlgorithm q = alg) quotes of None \<Rightarrow> [] | Some q \<Rightarrow> [q])
      else [])"
    by (auto simp add: supportedQuotes_unfold filter_firstQuoteOf Alg_distinct
        supportedHashAlgs_def simp flip: firstQuoteOf_find)
  then have b: "length (filter (\<lambda>q. quoteAlgorithm q = alg) (supportedQuotes quotes)) \<le> 1"
    by (simp split: option.splits)
  have c: "VerifyAttestation C (Some (att\<lparr>Quotes := supportedQuotes (Quotes att)\<rparr>)) opts
       = VerifyAttestation C (Some att) opts"
    by (simp add: VerifyAttestation_def supportedQuotes_idem verifyQuotes_Quotes_update
        verifyAK_Quotes_update cong: option.case_cong sum.case_cong)
  show ?thesis by (rule conjI [OF a conjI [OF b c]])
qed

theorem supportedQuotes_first_per_algorithm_witness:
  "filter (\<lambda>q. quoteAlgorithm q = AlgSHA256)
     (supportedQuotes [sampleQuote 11 [2], sampleQuote 4 [1], sampleQuote 11 [1]])
   = [sampleQuote 11 [2]]
   \<and> VerifyAttestation sampleCollaborators
        (Some (sampleAttestation [sampleQuote 11 [2], sampleQuote 11 [1]])) sampleOpts
       = Inl (FailedVerifyQuote ''signature mismatch'')"
proof -
  let ?qs = "[sampleQuote 11 [2], sampleQuote 4 [1], sampleQuote 11 [1]]"
  let ?A = "sampleAttestation [sampleQuote 11 [2], sampleQuote 11 [1]]"
  note T = supportedQuotes_first_per_algorithm [of AlgSHA256 ?qs sampleCollaborators ?A sampleOpts]
  have f: "(if AlgSHA256 \<in> set supportedHashAlgs
      then (case find (\<lambda>q. quoteAlgorithm q = AlgSHA256) ?qs of None \<Rightarrow> [] | Some q \<Rightarrow> [q])
      else []) = [sampleQuote 11 [2]]"
    by (simp add: sample_defs)
  have u: "?A\<lparr>Quotes := supportedQuotes (Quotes ?A)\<rparr> = sampleAttestation [sampleQuote 11 [2]]"
    by (simp add: sample_defs)
  have v: "VerifyAttestation sampleCollaborators (Some (sampleAttestation [sampleQuote 11 [2]]))
       sampleOpts = Inl (FailedVerifyQuote ''signature mismatch'')"
    by (simp add: sample_defs)
  from T [THEN conjunct1] f
  have a: "filter (\<lambda>q. quoteAlgorithm q = AlgSHA256) (supportedQuotes ?qs) = [sampleQuote 11 [2]]"
    by simp
  from T [THEN conjunct2, THEN conjunct2] u v
  have b: "VerifyAttestation sampleCollaborators (Some ?A) sampleOpts
       = Inl (FailedVerifyQuote ''signature mismatch'')"
    by simp
  show ?thesis by (rule conjI [OF a b])
qed

text \<open>
  C2. The claim: the candidates are the attestation's quotes of a supported algorithm,
  without the SHA-1 quotes when \<open>opts.AllowSHA1\<close> is false, in the order of preference.
  \<open>supportedQuotes\<close> does not read \<open>opts\<close>: a SHA-1 quote is a candidate whatever
  \<open>AllowSHA1\<close> is. As amended, for a call that reaches the loop: the algorithms of the
  candidates are the supported algorithms some quote bears, in the order SHA-512,
  SHA-384, SHA-256, SHA-1; each candidate is the first quote of the input with its
  algorithm; the call is the loop over these candidates; an attempt ends with the
  SHA-1 error exactly when the quote is a SHA-1 quote, \<open>AllowSHA1\<close> is false, and its
  signature and both logs were checked with success; the call ends with the SHA-1
  error only if every candidate failed; and of one SHA-1 quote and one SHA-256 quote,
  in either order, the SHA-256 quote is attempted first and the SHA-1 quote only when
  that attempt failed.
\<close>

theorem supportedQuotes_candidates:
  assumes "tpm2_DecodePublic C (AkPub att) = Inr pub"
    and "Public_Key C pub = Inr ak"
    and "checkAkTrusted ak opts = None
         \<or> validateAkCert C (AkCert att) (IntermediateCerts opts) (TrustedRootCerts opts) = None"
    and "internal_GetSigningHashAlg C pub = Inr signHashAlg"
    and "checkHashAlgSupported signHashAlg opts = None"
  shows "map quoteAlgorithm (supportedQuotes (Quotes att)) =
           filter (\<lambda>a. a \<in> quoteAlgorithm ` set (Quotes att))
             [AlgSHA512, AlgSHA384, AlgSHA256, AlgSHA1]
    \<and> (\<forall>q \<in> set (supportedQuotes (Quotes att)).
          find (\<lambda>p. quoteAlgorithm p = quoteAlgorithm q) (Quotes att) = Some q)
    \<and> VerifyAttestation C (Some att) opts =
          verifyQuotes C (Some att) opts ak None (supportedQuotes (Quotes att))
    \<and> (\<forall>q. verifyQuoteAttempt C (Some att) opts ak q = Inl (WhenVerifyingPCRs SHA1NotAllowed)
             \<longleftrightarrow>
             quoteAlgorithm q = AlgSHA1 \<and> \<not> AllowSHA1 opts
             \<and> internal_VerifyQuote C q ak (Nonce opts) = None
             \<and> (\<exists>state. parsePCClientEventLog C (EventLog att) (GetPcrs q) = Inr state)
             \<and> (\<exists>celState.
                   parseCanonicalEventLog C (CanonicalEventLog att) (GetPcrs q) = Inr celState))
    \<and> (VerifyAttestation C (Some att) opts = Inl (WhenVerifyingPCRs SHA1NotAllowed) \<longrightarrow>
          (\<forall>q \<in> set (supportedQuotes (Quotes att)).
             isl (verifyQuoteAttempt C (Some att) opts ak q)))
    \<and> (\<forall>q1 q2. quoteAlgorithm q1 = AlgSHA1 \<and> quoteAlgorithm q2 = AlgSHA256
             \<and> (Quotes att = [q1, q2] \<or> Quotes att = [q2, q1]) \<longrightarrow>
             supportedQuotes (Quotes att) = [q2, q1]
             \<and> VerifyAttestation C (Some att) opts =
                 (case verifyQuoteAttempt C (Some att) opts ak q2 of
                    Inr st \<Rightarrow> Inr st
                  | Inl _ \<Rightarrow> verifyQuoteAttempt C (Some att) opts ak q1))"
proof -
  note va = VerifyAttestation_quotes [OF assms]
  have a: "map quoteAlgorithm (supportedQuotes (Quotes att)) =
           filter (\<lambda>a. a \<in> quoteAlgorithm ` set (Quotes att))
             [AlgSHA512, AlgSHA384, AlgSHA256, AlgSHA1]"
    by (simp add: supportedQuotes_unfold map_firstQuoteOf)
  have b: "\<forall>q \<in> set (supportedQuotes (Quotes att)).
          find (\<lambda>p. quoteAlgorithm p = quoteAlgorithm q) (Quotes att) = Some q"
    using in_supportedQuotes by blast
  have c1: "\<forall>q. verifyQuoteAttempt C (Some att) opts ak q
                 = Inl (WhenVerifyingPCRs SHA1NotAllowed) \<longleftrightarrow>
             quoteAlgorithm q = AlgSHA1 \<and> \<not> AllowSHA1 opts
             \<and> internal_VerifyQuote C q ak (Nonce opts) = None
             \<and> (\<exists>state. parsePCClientEventLog C (EventLog att) (GetPcrs q) = Inr state)
             \<and> (\<exists>celState.
                   parseCanonicalEventLog C (CanonicalEventLog att) (GetPcrs q) = Inr celState)"
    by (simp add: verifyQuoteAttempt_errors(4) checkHashAlgSupported_SHA1) blast
  have c2: "VerifyAttestation C (Some att) opts = Inl (WhenVerifyingPCRs SHA1NotAllowed) \<longrightarrow>
          (\<forall>q \<in> set (supportedQuotes (Quotes att)).
             isl (verifyQuoteAttempt C (Some att) opts ak q))"
    unfolding va using verifyQuotes_Inl by blast
  have c3: "\<forall>q1 q2. quoteAlgorithm q1 = AlgSHA1 \<and> quoteAlgorithm q2 = AlgSHA256
             \<and> (Quotes att = [q1, q2] \<or> Quotes att = [q2, q1]) \<longrightarrow>
             supportedQuotes (Quotes att) = [q2, q1]
             \<and> VerifyAttestation C (Some att) opts =
                 (case verifyQuoteAttempt C (Some att) opts ak q2 of
                    Inr st \<Rightarrow> Inr st
                  | Inl _ \<Rightarrow> verifyQuoteAttempt C (Some att) opts ak q1)"
  proof (intro allI impI)
    fix q1 q2
    assume q: "quoteAlgorithm q1 = AlgSHA1 \<and> quoteAlgorithm q2 = AlgSHA256
             \<and> (Quotes att = [q1, q2] \<or> Quotes att = [q2, q1])"
    then have s: "supportedQuotes (Quotes att) = [q2, q1]"
      by (auto simp add: supportedQuotes_unfold Alg_distinct)
    show "supportedQuotes (Quotes att) = [q2, q1]
             \<and> VerifyAttestation C (Some att) opts =
                 (case verifyQuoteAttempt C (Some att) opts ak q2 of
                    Inr st \<Rightarrow> Inr st
                  | Inl _ \<Rightarrow> verifyQuoteAttempt C (Some att) opts ak q1)"
      unfolding va s by (auto split: sum.splits)
  qed
  show ?thesis
    by (rule conjI [OF a conjI [OF b conjI [OF va conjI [OF c1 conjI [OF c2 c3]]]]])
qed

theorem supportedQuotes_candidates_witness:
  "supportedQuotes [sampleQuote 4 [1], sampleQuote 11 [1]] = [sampleQuote 11 [1], sampleQuote 4 [1]]
   \<and> VerifyAttestation sampleCollaborators
        (Some (sampleAttestation [sampleQuote 4 [1], sampleQuote 11 [1]])) sampleOpts
       = Inr [''canonical'', ''legacy'']"
proof -
  let ?qs = "[sampleQuote 4 [1], sampleQuote 11 [1]]"
  have q: "quoteAlgorithm (sampleQuote 4 [1]) = AlgSHA1 \<and>
    quoteAlgorithm (sampleQuote 11 [1]) = AlgSHA256 \<and>
    (Quotes (sampleAttestation ?qs) = [sampleQuote 4 [1], sampleQuote 11 [1]]
     \<or> Quotes (sampleAttestation ?qs) = [sampleQuote 11 [1], sampleQuote 4 [1]])"
    by (simp add: sample_defs)
  have a: "verifyQuoteAttempt sampleCollaborators (Some (sampleAttestation ?qs)) sampleOpts
             (RSAPublicKey 1 65537) (sampleQuote 11 [1]) = Inr [''canonical'', ''legacy'']"
    by (simp add: sample_defs)
  have e: "Quotes (sampleAttestation ?qs) = ?qs"
    by (simp add: sampleAttestation_def)
  note T = supportedQuotes_candidates
         [OF sample_preamble(1) [of ?qs] sample_preamble(2) sample_preamble(3) [of ?qs]
            sample_preamble(4,5)]
  note S = T [THEN conjunct2, THEN conjunct2, THEN conjunct2, THEN conjunct2, THEN conjunct2,
              rule_format, OF q]
  from S show ?thesis unfolding e a by simp
qed

theorem supportedQuotes_keeps_disallowed_SHA1:
  "\<not> AllowSHA1 sampleOpts
   \<and> quoteAlgorithm (sampleQuote 4 [2]) = AlgSHA1
   \<and> supportedQuotes [sampleQuote 4 [2]] = [sampleQuote 4 [2]]
   \<and> VerifyAttestation sampleCollaborators (Some (sampleAttestation [sampleQuote 4 [2]]))
        sampleOpts
       = Inl (FailedVerifyQuote ''signature mismatch'')"
  by (simp add: sample_defs)

subsection \<open>The result of the loop\<close>




text \<open>
  C4. For a call that reaches the loop, with the candidates \<open>supportedQuotes\<close> selects:
  with no candidate the call ends with the error \<open>attestation does not contain a
  supported quote\<close>; when every candidate fails it ends with the error of the last
  candidate; when a candidate succeeds after only failures it returns that candidate's
  merged state. An attempt succeeds exactly when the signature verifies, both logs
  parse and replay and the PCR hash algorithm is supported, and each of the four
  failures is the error of the attempt, after which the loop goes on.
\<close>

theorem VerifyAttestation_quote_loop:
  assumes "tpm2_DecodePublic C (AkPub att) = Inr pub"
    and "Public_Key C pub = Inr ak"
    and "checkAkTrusted ak opts = None
         \<or> validateAkCert C (AkCert att) (IntermediateCerts opts) (TrustedRootCerts opts) = None"
    and "internal_GetSigningHashAlg C pub = Inr signHashAlg"
    and "checkHashAlgSupported signHashAlg opts = None"
  shows "(supportedQuotes (Quotes att) = [] \<longrightarrow>
            VerifyAttestation C (Some att) opts = Inl NoSupportedQuote)
    \<and> (supportedQuotes (Quotes att) \<noteq> []
        \<and> (\<forall>q \<in> set (supportedQuotes (Quotes att)).
              isl (verifyQuoteAttempt C (Some att) opts ak q))
        \<longrightarrow> VerifyAttestation C (Some att) opts =
              verifyQuoteAttempt C (Some att) opts ak (last (supportedQuotes (Quotes att))))
    \<and> (\<forall>pre q post merged.
          supportedQuotes (Quotes att) = pre @ q # post
          \<and> (\<forall>p \<in> set pre. isl (verifyQuoteAttempt C (Some att) opts ak p))
          \<and> verifyQuoteAttempt C (Some att) opts ak q = Inr merged
          \<longrightarrow> VerifyAttestation C (Some att) opts = Inr merged)
    \<and> (\<forall>q merged.
          verifyQuoteAttempt C (Some att) opts ak q = Inr merged \<longleftrightarrow>
            internal_VerifyQuote C q ak (Nonce opts) = None
            \<and> (\<exists>state celState.
                 parsePCClientEventLog C (EventLog att) (GetPcrs q) = Inr state
                 \<and> parseCanonicalEventLog C (CanonicalEventLog att) (GetPcrs q) = Inr celState
                 \<and> checkHashAlgSupported (quoteAlgorithm q) opts = None
                 \<and> merged = proto_Merge C celState state))
    \<and> (\<forall>q e.
          (internal_VerifyQuote C q ak (Nonce opts) = Some e \<longrightarrow>
             verifyQuoteAttempt C (Some att) opts ak q = Inl (FailedVerifyQuote e))
          \<and> (internal_VerifyQuote C q ak (Nonce opts) = None
              \<and> parsePCClientEventLog C (EventLog att) (GetPcrs q) = Inl e \<longrightarrow>
             verifyQuoteAttempt C (Some att) opts ak q = Inl (FailedValidatePCClientEventLog e))
          \<and> (internal_VerifyQuote C q ak (Nonce opts) = None
              \<and> (\<exists>state. parsePCClientEventLog C (EventLog att) (GetPcrs q) = Inr state)
              \<and> parseCanonicalEventLog C (CanonicalEventLog att) (GetPcrs q) = Inl e \<longrightarrow>
             verifyQuoteAttempt C (Some att) opts ak q
               = Inl (FailedValidateCanonicalEventLog e)))
    \<and> (\<forall>q e.
          internal_VerifyQuote C q ak (Nonce opts) = None
          \<and> (\<exists>state. parsePCClientEventLog C (EventLog att) (GetPcrs q) = Inr state)
          \<and> (\<exists>celState.
                parseCanonicalEventLog C (CanonicalEventLog att) (GetPcrs q) = Inr celState)
          \<and> checkHashAlgSupported (quoteAlgorithm q) opts = Some e \<longrightarrow>
          verifyQuoteAttempt C (Some att) opts ak q = Inl (WhenVerifyingPCRs e))"
proof -
  note va = VerifyAttestation_quotes [OF assms]
  have a: "supportedQuotes (Quotes att) = [] \<longrightarrow>
            VerifyAttestation C (Some att) opts = Inl NoSupportedQuote"
    unfolding va by simp
  have b: "supportedQuotes (Quotes att) \<noteq> []
        \<and> (\<forall>q \<in> set (supportedQuotes (Quotes att)).
              isl (verifyQuoteAttempt C (Some att) opts ak q))
        \<longrightarrow> VerifyAttestation C (Some att) opts =
              verifyQuoteAttempt C (Some att) opts ak (last (supportedQuotes (Quotes att)))"
    unfolding va by (simp add: verifyQuotes_all_fail)
  have c: "\<forall>pre q post merged.
          supportedQuotes (Quotes att) = pre @ q # post
          \<and> (\<forall>p \<in> set pre. isl (verifyQuoteAttempt C (Some att) opts ak p))
          \<and> verifyQuoteAttempt C (Some att) opts ak q = Inr merged
          \<longrightarrow> VerifyAttestation C (Some att) opts = Inr merged"
  proof (intro allI impI)
    fix pre q post merged
    assume h: "supportedQuotes (Quotes att) = pre @ q # post
          \<and> (\<forall>p \<in> set pre. isl (verifyQuoteAttempt C (Some att) opts ak p))
          \<and> verifyQuoteAttempt C (Some att) opts ak q = Inr merged"
    then have s: "supportedQuotes (Quotes att) = pre @ q # post"
      and f: "\<forall>p \<in> set pre. isl (verifyQuoteAttempt C (Some att) opts ak p)"
      and m: "verifyQuoteAttempt C (Some att) opts ak q = Inr merged"
      by blast+
    show "VerifyAttestation C (Some att) opts = Inr merged"
      unfolding va s by (rule verifyQuotes_first_success [OF f m])
  qed
  have d: "\<forall>q merged.
          verifyQuoteAttempt C (Some att) opts ak q = Inr merged \<longleftrightarrow>
            internal_VerifyQuote C q ak (Nonce opts) = None
            \<and> (\<exists>state celState.
                 parsePCClientEventLog C (EventLog att) (GetPcrs q) = Inr state
                 \<and> parseCanonicalEventLog C (CanonicalEventLog att) (GetPcrs q) = Inr celState
                 \<and> checkHashAlgSupported (quoteAlgorithm q) opts = None
                 \<and> merged = proto_Merge C celState state)"
    by (simp add: verifyQuoteAttempt_Inr)
  have e: "\<forall>q e.
          (internal_VerifyQuote C q ak (Nonce opts) = Some e \<longrightarrow>
             verifyQuoteAttempt C (Some att) opts ak q = Inl (FailedVerifyQuote e))
          \<and> (internal_VerifyQuote C q ak (Nonce opts) = None
              \<and> parsePCClientEventLog C (EventLog att) (GetPcrs q) = Inl e \<longrightarrow>
             verifyQuoteAttempt C (Some att) opts ak q = Inl (FailedValidatePCClientEventLog e))
          \<and> (internal_VerifyQuote C q ak (Nonce opts) = None
              \<and> (\<exists>state. parsePCClientEventLog C (EventLog att) (GetPcrs q) = Inr state)
              \<and> parseCanonicalEventLog C (CanonicalEventLog att) (GetPcrs q) = Inl e \<longrightarrow>
             verifyQuoteAttempt C (Some att) opts ak q
               = Inl (FailedValidateCanonicalEventLog e))"
    by (simp add: verifyQuoteAttempt_errors)
  have f: "\<forall>q e.
          internal_VerifyQuote C q ak (Nonce opts) = None
          \<and> (\<exists>state. parsePCClientEventLog C (EventLog att) (GetPcrs q) = Inr state)
          \<and> (\<exists>celState.
                parseCanonicalEventLog C (CanonicalEventLog att) (GetPcrs q) = Inr celState)
          \<and> checkHashAlgSupported (quoteAlgorithm q) opts = Some e \<longrightarrow>
          verifyQuoteAttempt C (Some att) opts ak q = Inl (WhenVerifyingPCRs e)"
    by (simp add: verifyQuoteAttempt_errors)
  show ?thesis
    by (rule conjI [OF a conjI [OF b conjI [OF c conjI [OF d conjI [OF e f]]]]])
qed

theorem VerifyAttestation_quote_loop_witness:
  "VerifyAttestation sampleCollaborators (Some (sampleAttestation [])) sampleOpts
       = Inl NoSupportedQuote
   \<and> VerifyAttestation sampleCollaborators
        (Some (sampleAttestation [sampleQuote 4 [1], sampleQuote 11 [2]])) sampleOpts
       = Inl (WhenVerifyingPCRs SHA1NotAllowed)
   \<and> VerifyAttestation sampleCollaborators
        (Some (sampleAttestation [sampleQuote 11 [1], sampleQuote 12 [2]])) sampleOpts
       = Inr [''canonical'', ''legacy'']"
proof -
  let ?C = sampleCollaborators and ?ak = "RSAPublicKey 1 65537"
  let ?q1 = "[sampleQuote 4 [1], sampleQuote 11 [2]]"
  let ?q2 = "[sampleQuote 11 [1], sampleQuote 12 [2]]"
  note T0 = VerifyAttestation_quote_loop
    [OF sample_preamble(1) [of "[]"] sample_preamble(2) sample_preamble(3) [of "[]"]
        sample_preamble(4,5)]
  note T1 = VerifyAttestation_quote_loop
    [OF sample_preamble(1) [of ?q1] sample_preamble(2) sample_preamble(3) [of ?q1]
        sample_preamble(4,5)]
  note T2 = VerifyAttestation_quote_loop
    [OF sample_preamble(1) [of ?q2] sample_preamble(2) sample_preamble(3) [of ?q2]
        sample_preamble(4,5)]
  have s0: "supportedQuotes (Quotes (sampleAttestation [])) = []"
    by (simp add: sample_defs)
  have r0: "VerifyAttestation ?C (Some (sampleAttestation [])) sampleOpts = Inl NoSupportedQuote"
    using T0 [THEN conjunct1] s0 by blast
  have s1: "supportedQuotes (Quotes (sampleAttestation ?q1))
              = [sampleQuote 11 [2], sampleQuote 4 [1]]"
    by (simp add: sample_defs)
  have f1: "verifyQuoteAttempt ?C (Some (sampleAttestation ?q1)) sampleOpts ?ak
              (sampleQuote 11 [2]) = Inl (FailedVerifyQuote ''signature mismatch'')"
    "verifyQuoteAttempt ?C (Some (sampleAttestation ?q1)) sampleOpts ?ak (sampleQuote 4 [1])
              = Inl (WhenVerifyingPCRs SHA1NotAllowed)"
    by (simp_all add: sample_defs)
  have r1: "VerifyAttestation ?C (Some (sampleAttestation ?q1)) sampleOpts
              = Inl (WhenVerifyingPCRs SHA1NotAllowed)"
    using T1 [THEN conjunct2, THEN conjunct1] s1 f1 by simp
  have s2: "supportedQuotes (Quotes (sampleAttestation ?q2))
              = [sampleQuote 12 [2]] @ sampleQuote 11 [1] # []"
    by (simp add: sample_defs)
  have f2: "\<forall>p \<in> set [sampleQuote 12 [2]].
              isl (verifyQuoteAttempt ?C (Some (sampleAttestation ?q2)) sampleOpts ?ak p)"
    "verifyQuoteAttempt ?C (Some (sampleAttestation ?q2)) sampleOpts ?ak (sampleQuote 11 [1])
              = Inr [''canonical'', ''legacy'']"
    by (simp_all add: sample_defs)
  have r2: "VerifyAttestation ?C (Some (sampleAttestation ?q2)) sampleOpts
              = Inr [''canonical'', ''legacy'']"
    using T2 [THEN conjunct2, THEN conjunct2, THEN conjunct1, rule_format,
              OF conjI [OF s2 conjI [OF f2]]] .
  show ?thesis by (rule conjI [OF r0 conjI [OF r1 r2]])
qed

section \<open>Properties: hashing\<close>

declare sequenceUpdateLoop.simps [simp del]
declare chunksOf.simps [simp del]




lemma chunksOf_Nil: "chunksOf [] = [[]]"
  by (subst chunksOf.simps) (simp add: Buffer_Next_def)







subsection \<open>The commands a call sends\<close>

lemma callsOf_Some: "callsOf (Some (d, cs)) = cs"
  by (simp add: callsOf_def)

lemma recording_SequenceUpdate:
  "SequenceUpdate (recording H) (Some (dev, calls)) auth h chunk =
     (map_option LibraryError (fst (tpm2_SequenceUpdate H dev auth h chunk)),
      Some (snd (tpm2_SequenceUpdate H dev auth h chunk),
            calls @ [Call_SequenceUpdate auth h chunk]))"
  by (cases "tpm2_SequenceUpdate H dev auth h chunk")
     (simp add: SequenceUpdate_def recording_def recorded_def split: option.splits)

lemma recording_loop:
  "\<exists>e d ext. sequenceUpdateLoop (recording H) (Some (dev, calls)) auth h buf =
     (e, Some (d, calls @ Call_SequenceUpdate auth h (take maxDigestBufferSize buf) # ext))"
proof (induction buf arbitrary: dev calls rule: chunksOf.induct)
  case (1 buf)
  let ?chunk = "fst (Buffer_Next maxDigestBufferSize buf)"
  let ?rest = "snd (Buffer_Next maxDigestBufferSize buf)"
  let ?u = "tpm2_SequenceUpdate H dev auth h ?chunk"
  let ?calls1 = "calls @ [Call_SequenceUpdate auth h ?chunk]"
  have ch: "?chunk = take maxDigestBufferSize buf" by (simp add: Buffer_Next_def)
  have step: "sequenceUpdateLoop (recording H) (Some (dev, calls)) auth h buf =
      (if fst ?u \<noteq> None then (map_option LibraryError (fst ?u), Some (snd ?u, ?calls1))
       else if length ?rest > 0
       then sequenceUpdateLoop (recording H) (Some (snd ?u, ?calls1)) auth h ?rest
       else (map_option LibraryError (fst ?u), Some (snd ?u, ?calls1)))"
    by (subst sequenceUpdateLoop.simps) (simp add: Let_def recording_SequenceUpdate)
  show ?case
  proof (cases "fst ?u = None \<and> length ?rest > 0")
    case True
    from "1.IH" [of "snd ?u" ?calls1] True
    obtain e d ext where "sequenceUpdateLoop (recording H) (Some (snd ?u, ?calls1)) auth h ?rest
        = (e, Some (d, ?calls1 @ Call_SequenceUpdate auth h (take maxDigestBufferSize ?rest) # ext))"
      by blast
    with step True ch show ?thesis by simp
  next
    case False
    with step ch show ?thesis by auto
  qed
qed

lemma recording_loop_empty:
  "sequenceUpdateLoop (recording H) (Some (dev, calls)) auth h [] =
     (map_option LibraryError (fst (tpm2_SequenceUpdate H dev auth h [])),
      Some (snd (tpm2_SequenceUpdate H dev auth h []), calls @ [Call_SequenceUpdate auth h []]))"
  by (subst sequenceUpdateLoop.simps)
     (simp add: Let_def recording_SequenceUpdate Buffer_Next_def)

lemma recording_resolveAlgorithm: "resolveAlgorithm (recording H) h = resolveAlgorithm H h"
  by (cases h) (simp_all add: resolveAlgorithm_def recording_def)

lemma recording_start:
  "tpm2_HashSequenceStart H dev auth alg = (Inr sh, dev1) \<Longrightarrow>
   onDevice (Some (dev, calls)) (\<lambda>d. tpm2_HashSequenceStart (recording H) d auth alg) =
     (Inr sh, Some (dev1, calls @ [Call_HashSequenceStart auth alg]))"
  by (simp add: onDevice_def recording_def recorded_def)

lemma recording_complete:
  "callsOf (snd (onDevice (Some (d, cs))
       (\<lambda>x. tpm2_SequenceComplete (recording H) x auth sh hierarchy buf))) =
     cs @ [Call_SequenceComplete auth sh hierarchy buf]"
  by (cases "tpm2_SequenceComplete H d auth sh hierarchy buf";
      cases "fst (tpm2_SequenceComplete H d auth sh hierarchy buf)")
     (simp_all add: onDevice_def recording_def recorded_def callsOf_def)

lemma recording_event_complete:
  "callsOf (snd (onDevice (Some (d, cs))
       (\<lambda>x. tpm2_EventSequenceComplete (recording H) x pcrAuth auth pcrHandle sh buf))) =
     cs @ [Call_EventSequenceComplete pcrAuth auth pcrHandle sh buf]"
  by (cases "tpm2_EventSequenceComplete H d pcrAuth auth pcrHandle sh buf";
      cases "fst (tpm2_EventSequenceComplete H d pcrAuth auth pcrHandle sh buf)")
     (simp_all add: onDevice_def recording_def recorded_def callsOf_def)

lemma HashWithSequencing_calls:
  assumes "resolver 0 = (hopt, Some (dev, calls))"
    and "resolveAlgorithm H hopt = Inr alg"
    and "tpm2_HashSequenceStart H dev auth alg = (Inr sh, dev1)"
  shows "callsOf (snd (HashWithSequencing (recording H) data resolver auth (Some hierarchy))) =
     (case sequenceUpdateLoop (recording H)
             (Some (dev1, calls @ [Call_HashSequenceStart auth alg])) auth sh data of
        (Some e, device2) \<Rightarrow> callsOf device2
      | (None, device2) \<Rightarrow> callsOf device2 @ [Call_SequenceComplete auth sh hierarchy []])"
proof -
  obtain e d ext where l: "sequenceUpdateLoop (recording H)
             (Some (dev1, calls @ [Call_HashSequenceStart auth alg])) auth sh data
      = (e, Some (d, (calls @ [Call_HashSequenceStart auth alg])
                     @ Call_SequenceUpdate auth sh (take maxDigestBufferSize data) # ext))"
    using recording_loop [of H dev1 "calls @ [Call_HashSequenceStart auth alg]" auth sh data]
    by blast
  show ?thesis
    using assms
    by (cases e)
       (simp_all add: HashWithSequencing_def ByteSliceToBuffer_def Let_def
          recording_resolveAlgorithm recording_start l recording_complete callsOf_Some)
qed

lemma EventWithSequencing_calls:
  assumes "resolver 0 = (hopt, Some (dev, calls))"
    and "resolveAlgorithm H hopt = Inr alg"
    and "tpm2_HashSequenceStart H dev auth alg = (Inr sh, dev1)"
  shows "callsOf (snd (EventWithSequencing (recording H) data resolver auth pcrAuth pcrHandle)) =
     (case sequenceUpdateLoop (recording H)
             (Some (dev1, calls @ [Call_HashSequenceStart auth alg])) auth sh data of
        (Some e, device2) \<Rightarrow> callsOf device2
      | (None, device2) \<Rightarrow>
          callsOf device2 @ [Call_EventSequenceComplete pcrAuth auth pcrHandle sh []])"
proof -
  obtain e d ext where l: "sequenceUpdateLoop (recording H)
             (Some (dev1, calls @ [Call_HashSequenceStart auth alg])) auth sh data
      = (e, Some (d, (calls @ [Call_HashSequenceStart auth alg])
                     @ Call_SequenceUpdate auth sh (take maxDigestBufferSize data) # ext))"
    using recording_loop [of H dev1 "calls @ [Call_HashSequenceStart auth alg]" auth sh data]
    by blast
  show ?thesis
    using assms
    by (cases e)
       (simp_all add: EventWithSequencing_def ByteSliceToBuffer_def Let_def
          recording_resolveAlgorithm recording_start l recording_event_complete callsOf_Some)
qed

text \<open>
  C10. The claim: in every call of \<open>HashWithSequencing\<close> or \<open>EventWithSequencing\<close> the
  update loop runs at least once. A call that fails to resolve the algorithm or to
  start the sequence returns before the loop. As amended, on a device that records
  the commands it receives: the loop sends at least one \<open>SequenceUpdate\<close>, the first
  with the first \<open>maxDigestBufferSize\<close> bytes of the buffer, whatever the buffer, and
  on the empty buffer exactly one, with the empty chunk; and a call of either function
  whose algorithm resolves and whose sequence starts sends the start, then at least
  one update, and on empty data the start, one update with the empty chunk and, when
  that update succeeds, the completion.
\<close>

theorem sequencing_updates_at_least_once:
  "(\<exists>e d rest.
      sequenceUpdateLoop (recording (H :: ('ctx, 'dev) hashing)) (Some (dev, calls)) auth h
        dataBuffer =
        (e, Some (d, calls @
           Call_SequenceUpdate auth h (take maxDigestBufferSize dataBuffer) # rest)))
   \<and> callsOf (snd (sequenceUpdateLoop (recording H) (Some (dev, calls)) auth h []))
       = calls @ [Call_SequenceUpdate auth h []]
   \<and> (\<forall>resolver hopt alg sh dev1 data.
         resolver 0 = (hopt, Some (dev, calls))
         \<and> resolveAlgorithm H hopt = Inr alg
         \<and> tpm2_HashSequenceStart H dev auth alg = (Inr sh, dev1)
         \<longrightarrow>
         (\<exists>rest.
            callsOf (snd (HashWithSequencing (recording H) data resolver auth (Some hierarchy)))
              = calls @ Call_HashSequenceStart auth alg #
                  Call_SequenceUpdate auth sh (take maxDigestBufferSize data) # rest)
         \<and> callsOf (snd (HashWithSequencing (recording H) [] resolver auth (Some hierarchy)))
             = calls @ Call_HashSequenceStart auth alg # Call_SequenceUpdate auth sh [] #
                 (if fst (tpm2_SequenceUpdate H dev1 auth sh []) = None
                  then [Call_SequenceComplete auth sh hierarchy []] else [])
         \<and> (\<exists>rest.
            callsOf (snd (EventWithSequencing (recording H) data resolver auth pcrAuth pcrHandle))
              = calls @ Call_HashSequenceStart auth alg #
                  Call_SequenceUpdate auth sh (take maxDigestBufferSize data) # rest)
         \<and> callsOf (snd (EventWithSequencing (recording H) [] resolver auth pcrAuth pcrHandle))
             = calls @ Call_HashSequenceStart auth alg # Call_SequenceUpdate auth sh [] #
                 (if fst (tpm2_SequenceUpdate H dev1 auth sh []) = None
                  then [Call_EventSequenceComplete pcrAuth auth pcrHandle sh []] else []))"
proof -
  have a: "\<exists>e d rest.
      sequenceUpdateLoop (recording H) (Some (dev, calls)) auth h dataBuffer =
        (e, Some (d, calls @
           Call_SequenceUpdate auth h (take maxDigestBufferSize dataBuffer) # rest))"
    by (rule recording_loop)
  have b: "callsOf (snd (sequenceUpdateLoop (recording H) (Some (dev, calls)) auth h []))
       = calls @ [Call_SequenceUpdate auth h []]"
    by (simp add: recording_loop_empty callsOf_Some)
  have c: "\<forall>resolver hopt alg sh dev1 data.
         resolver 0 = (hopt, Some (dev, calls))
         \<and> resolveAlgorithm H hopt = Inr alg
         \<and> tpm2_HashSequenceStart H dev auth alg = (Inr sh, dev1)
         \<longrightarrow>
         (\<exists>rest.
            callsOf (snd (HashWithSequencing (recording H) data resolver auth (Some hierarchy)))
              = calls @ Call_HashSequenceStart auth alg #
                  Call_SequenceUpdate auth sh (take maxDigestBufferSize data) # rest)
         \<and> callsOf (snd (HashWithSequencing (recording H) [] resolver auth (Some hierarchy)))
             = calls @ Call_HashSequenceStart auth alg # Call_SequenceUpdate auth sh [] #
                 (if fst (tpm2_SequenceUpdate H dev1 auth sh []) = None
                  then [Call_SequenceComplete auth sh hierarchy []] else [])
         \<and> (\<exists>rest.
            callsOf (snd (EventWithSequencing (recording H) data resolver auth pcrAuth pcrHandle))
              = calls @ Call_HashSequenceStart auth alg #
                  Call_SequenceUpdate auth sh (take maxDigestBufferSize data) # rest)
         \<and> callsOf (snd (EventWithSequencing (recording H) [] resolver auth pcrAuth pcrHandle))
             = calls @ Call_HashSequenceStart auth alg # Call_SequenceUpdate auth sh [] #
                 (if fst (tpm2_SequenceUpdate H dev1 auth sh []) = None
                  then [Call_EventSequenceComplete pcrAuth auth pcrHandle sh []] else [])"
  proof (intro allI impI)
    fix resolver :: "('dev \<times> tpm_call list) HashResolver"
    fix hopt alg sh dev1 data
    assume h: "resolver 0 = (hopt, Some (dev, calls))
         \<and> resolveAlgorithm H hopt = Inr alg
         \<and> tpm2_HashSequenceStart H dev auth alg = (Inr sh, dev1)"
    then have h1: "resolver 0 = (hopt, Some (dev, calls))"
      and h2: "resolveAlgorithm H hopt = Inr alg"
      and h3: "tpm2_HashSequenceStart H dev auth alg = (Inr sh, dev1)"
      by blast+
    let ?calls1 = "calls @ [Call_HashSequenceStart auth alg]"
    obtain e d ext where l: "sequenceUpdateLoop (recording H) (Some (dev1, ?calls1)) auth sh data
        = (e, Some (d, ?calls1 @ Call_SequenceUpdate auth sh (take maxDigestBufferSize data) # ext))"
      using recording_loop [of H dev1 ?calls1 auth sh data] by blast
    note le = recording_loop_empty [of H dev1 ?calls1 auth sh]
    have c1: "\<exists>rest.
            callsOf (snd (HashWithSequencing (recording H) data resolver auth (Some hierarchy)))
              = calls @ Call_HashSequenceStart auth alg #
                  Call_SequenceUpdate auth sh (take maxDigestBufferSize data) # rest"
      unfolding HashWithSequencing_calls [where resolver = resolver, OF h1 h2 h3] l
      by (cases e) (simp_all add: callsOf_Some)
    have c2: "callsOf (snd (HashWithSequencing (recording H) [] resolver auth (Some hierarchy)))
             = calls @ Call_HashSequenceStart auth alg # Call_SequenceUpdate auth sh [] #
                 (if fst (tpm2_SequenceUpdate H dev1 auth sh []) = None
                  then [Call_SequenceComplete auth sh hierarchy []] else [])"
      unfolding HashWithSequencing_calls [where resolver = resolver, OF h1 h2 h3] le
      by (cases "fst (tpm2_SequenceUpdate H dev1 auth sh [])") (simp_all add: callsOf_Some)
    have c3: "\<exists>rest.
            callsOf (snd (EventWithSequencing (recording H) data resolver auth pcrAuth pcrHandle))
              = calls @ Call_HashSequenceStart auth alg #
                  Call_SequenceUpdate auth sh (take maxDigestBufferSize data) # rest"
      unfolding EventWithSequencing_calls [where resolver = resolver, OF h1 h2 h3] l
      by (cases e) (simp_all add: callsOf_Some)
    have c4: "callsOf (snd (EventWithSequencing (recording H) [] resolver auth pcrAuth pcrHandle))
             = calls @ Call_HashSequenceStart auth alg # Call_SequenceUpdate auth sh [] #
                 (if fst (tpm2_SequenceUpdate H dev1 auth sh []) = None
                  then [Call_EventSequenceComplete pcrAuth auth pcrHandle sh []] else [])"
      unfolding EventWithSequencing_calls [where resolver = resolver, OF h1 h2 h3] le
      by (cases "fst (tpm2_SequenceUpdate H dev1 auth sh [])") (simp_all add: callsOf_Some)
    show "(\<exists>rest.
            callsOf (snd (HashWithSequencing (recording H) data resolver auth (Some hierarchy)))
              = calls @ Call_HashSequenceStart auth alg #
                  Call_SequenceUpdate auth sh (take maxDigestBufferSize data) # rest)
         \<and> callsOf (snd (HashWithSequencing (recording H) [] resolver auth (Some hierarchy)))
             = calls @ Call_HashSequenceStart auth alg # Call_SequenceUpdate auth sh [] #
                 (if fst (tpm2_SequenceUpdate H dev1 auth sh []) = None
                  then [Call_SequenceComplete auth sh hierarchy []] else [])
         \<and> (\<exists>rest.
            callsOf (snd (EventWithSequencing (recording H) data resolver auth pcrAuth pcrHandle))
              = calls @ Call_HashSequenceStart auth alg #
                  Call_SequenceUpdate auth sh (take maxDigestBufferSize data) # rest)
         \<and> callsOf (snd (EventWithSequencing (recording H) [] resolver auth pcrAuth pcrHandle))
             = calls @ Call_HashSequenceStart auth alg # Call_SequenceUpdate auth sh [] #
                 (if fst (tpm2_SequenceUpdate H dev1 auth sh []) = None
                  then [Call_EventSequenceComplete pcrAuth auth pcrHandle sh []] else [])"
      by (rule conjI [OF c1 conjI [OF c2 conjI [OF c3 c4]]])
  qed
  show ?thesis by (rule conjI [OF a conjI [OF b c]])
qed

theorem sequencing_updates_at_least_once_witness:
  "callsOf (snd (HashWithSequencing
       (recording (simulated sampleFamily sampleLocalNew sampleToAlg)) []
       (constResolver (Some 5, Some (freshDevice, []))) [] (Some 0x40000007)))
   = [Call_HashSequenceStart [] AlgSHA256, Call_SequenceUpdate [] 1 [],
      Call_SequenceComplete [] 1 0x40000007 []]"
proof -
  let ?S = "simulated sampleFamily sampleLocalNew sampleToAlg"
  let ?dev1 = "freshDevice\<lparr>next_handle := 2,
      sequences := (sequences freshDevice)(1 \<mapsto> (AlgSHA256, []))\<rparr> :: bytes sim_device"
  let ?r = "constResolver (Some 5, Some (freshDevice, [])) ::
      (bytes sim_device \<times> tpm_call list) HashResolver"
  have h: "?r 0 = (Some 5, Some (freshDevice, []))
      \<and> resolveAlgorithm ?S (Some 5) = Inr AlgSHA256
      \<and> tpm2_HashSequenceStart ?S freshDevice [] AlgSHA256 = (Inr 1, ?dev1)"
    by (simp add: constResolver_def resolveAlgorithm_def simulated_def sampleToAlg_def
        sim_HashSequenceStart_def freshDevice_def sampleFamily_def)
  have u: "fst (tpm2_SequenceUpdate ?S ?dev1 [] 1 []) = None"
    by (simp add: simulated_def sim_SequenceUpdate_def)
  note A = sequencing_updates_at_least_once
    [where H = ?S and dev = freshDevice and calls = "[]" and auth = "[]"
       and hierarchy = "0x40000007",
     THEN conjunct2, THEN conjunct2, rule_format]
  note T = A [where resolver = ?r, OF h, THEN conjunct2, THEN conjunct1]
  from T u show ?thesis by simp
qed

theorem HashWithSequencing_returns_before_loop:
  "fst (HashWithSequencing (recording (simulated sampleFamily sampleLocalNew sampleToAlg)) []
          (constResolver (Some 4, Some (freshDevice, []))) [] (Some 0x40000007))
     = Inl (LibraryError ''no TPM algorithm'')
   \<and> callsOf (snd (HashWithSequencing
         (recording (simulated sampleFamily sampleLocalNew sampleToAlg)) []
         (constResolver (Some 4, Some (freshDevice, []))) [] (Some 0x40000007)))
     = []"
  by (simp add: HashWithSequencing_def resolveAlgorithm_def recording_def simulated_def
      constResolver_def sampleToAlg_def callsOf_def)

end
